theory Spec2Isabelle
  imports Main "HOL-Library.Sublist"
begin

section \<open>Text primitives used by the voice bot\<close>

text \<open>
  The bot of \<^verbatim>\<open>kyc_voice_bot.py\<close> works on Python \<^verbatim>\<open>str\<close> values, sequences of Unicode
  code points. The characters of the model are the code points U+0000 to U+00FF
  (\<open>Latin1 c\<close> is the code point with the number of \<open>c\<close>) and the three code points that
  \<^verbatim>\<open>upper()\<close> and \<^verbatim>\<open>lower()\<close> reach from them: U+039C and U+0178, the upper-case forms
  of U+00B5 and U+00FF, and U+03BC, the lower-case form of U+039C. On this alphabet
  the functions below are Python's.
\<close>

datatype pychar = Latin1 char | U039C | U03BC | U0178

type_synonym pystr = "pychar list"

text \<open>A text written with characters of U+0000 to U+00FF.\<close>

definition str :: "string \<Rightarrow> pystr" where
  "str cs = map Latin1 cs"

definition ascii_lowercase :: string where
  "ascii_lowercase = ''abcdefghijklmnopqrstuvwxyz''"

definition ascii_uppercase :: string where
  "ascii_uppercase = ''ABCDEFGHIJKLMNOPQRSTUVWXYZ''"

definition ascii_digits :: string where
  "ascii_digits = ''0123456789''"

text \<open>
  The lower-case letters U+00E0 to U+00FE (without the division sign U+00F7) and, in the
  same order, their upper-case forms U+00C0 to U+00DE (without the multiplication sign
  U+00D7).
\<close>

definition latin1_lowercase :: string where
  "latin1_lowercase =
     [CHR 0xE0, CHR 0xE1, CHR 0xE2, CHR 0xE3, CHR 0xE4, CHR 0xE5, CHR 0xE6, CHR 0xE7,
      CHR 0xE8, CHR 0xE9, CHR 0xEA, CHR 0xEB, CHR 0xEC, CHR 0xED, CHR 0xEE, CHR 0xEF,
      CHR 0xF0, CHR 0xF1, CHR 0xF2, CHR 0xF3, CHR 0xF4, CHR 0xF5, CHR 0xF6,
      CHR 0xF8, CHR 0xF9, CHR 0xFA, CHR 0xFB, CHR 0xFC, CHR 0xFD, CHR 0xFE]"

definition latin1_uppercase :: string where
  "latin1_uppercase =
     [CHR 0xC0, CHR 0xC1, CHR 0xC2, CHR 0xC3, CHR 0xC4, CHR 0xC5, CHR 0xC6, CHR 0xC7,
      CHR 0xC8, CHR 0xC9, CHR 0xCA, CHR 0xCB, CHR 0xCC, CHR 0xCD, CHR 0xCE, CHR 0xCF,
      CHR 0xD0, CHR 0xD1, CHR 0xD2, CHR 0xD3, CHR 0xD4, CHR 0xD5, CHR 0xD6,
      CHR 0xD8, CHR 0xD9, CHR 0xDA, CHR 0xDB, CHR 0xDC, CHR 0xDD, CHR 0xDE]"

text \<open>
  The regex classes \<^verbatim>\<open>[a-z]\<close>, \<^verbatim>\<open>[A-Z]\<close>, \<^verbatim>\<open>[0-9]\<close> and \<^verbatim>\<open>[a-zA-Z]\<close>. The class \<^verbatim>\<open>\d\<close>
  of a \<^verbatim>\<open>str\<close> pattern is the decimal digits of Unicode; those of the alphabet of the
  model are \<^verbatim>\<open>0\<close> to \<^verbatim>\<open>9\<close>, so that \<^verbatim>\<open>\d\<close> is \<open>is_digit_09\<close> too.
\<close>

definition is_lower_az :: "pychar \<Rightarrow> bool" where
  "is_lower_az c = (case c of Latin1 a \<Rightarrow> a \<in> set ascii_lowercase | _ \<Rightarrow> False)"

definition is_upper_AZ :: "pychar \<Rightarrow> bool" where
  "is_upper_AZ c = (case c of Latin1 a \<Rightarrow> a \<in> set ascii_uppercase | _ \<Rightarrow> False)"

definition is_digit_09 :: "pychar \<Rightarrow> bool" where
  "is_digit_09 c = (case c of Latin1 a \<Rightarrow> a \<in> set ascii_digits | _ \<Rightarrow> False)"

definition is_alpha_azAZ :: "pychar \<Rightarrow> bool" where
  "is_alpha_azAZ c = (is_lower_az c \<or> is_upper_AZ c)"

text \<open>
  \<^verbatim>\<open>str.isspace\<close>: tab, line feed, vertical tab, form feed, carriage return, the four
  separators U+001C to U+001F, the space, the next-line control U+0085 and the no-break
  space U+00A0.
\<close>

definition py_isspace :: "pychar \<Rightarrow> bool" where
  "py_isspace c =
     (case c of
        Latin1 a \<Rightarrow> a \<in> set [CHR 0x09, CHR 0x0A, CHR 0x0B, CHR 0x0C, CHR 0x0D,
                               CHR 0x1C, CHR 0x1D, CHR 0x1E, CHR 0x1F, CHR 0x20,
                               CHR 0x85, CHR 0xA0]
      | _ \<Rightarrow> False)"

text \<open>\<^verbatim>\<open>s.strip()\<close>: white space removed at both ends.\<close>

definition py_strip :: "pystr \<Rightarrow> pystr" where
  "py_strip s = rev (dropWhile py_isspace (rev (dropWhile py_isspace s)))"

text \<open>
  The upper-case form of one character, a text: U+00DF becomes \<^verbatim>\<open>SS\<close>, U+00B5 becomes
  U+039C, U+00FF becomes U+0178, a lower-case letter becomes its upper-case letter, and
  every other character stays.
\<close>

definition upper_char :: "pychar \<Rightarrow> pystr" where
  "upper_char c =
     (case c of
        Latin1 a \<Rightarrow>
          if a = CHR 0xDF then str ''SS''
          else if a = CHR 0xB5 then [U039C]
          else if a = CHR 0xFF then [U0178]
          else (case map_of (zip (ascii_lowercase @ latin1_lowercase)
                                 (ascii_uppercase @ latin1_uppercase)) a of
                  Some u \<Rightarrow> [Latin1 u]
                | None \<Rightarrow> [Latin1 a])
      | U039C \<Rightarrow> [U039C]
      | U03BC \<Rightarrow> [U039C]
      | U0178 \<Rightarrow> [U0178])"

text \<open>The lower-case form of one character, always one character.\<close>

definition lower_char :: "pychar \<Rightarrow> pychar" where
  "lower_char c =
     (case c of
        Latin1 a \<Rightarrow>
          (case map_of (zip (ascii_uppercase @ latin1_uppercase)
                            (ascii_lowercase @ latin1_lowercase)) a of
             Some l \<Rightarrow> Latin1 l
           | None \<Rightarrow> Latin1 a)
      | U039C \<Rightarrow> U03BC
      | U03BC \<Rightarrow> U03BC
      | U0178 \<Rightarrow> Latin1 (CHR 0xFF))"

text \<open>\<^verbatim>\<open>s.upper()\<close> and \<^verbatim>\<open>s.lower()\<close>.\<close>

definition py_upper :: "pystr \<Rightarrow> pystr" where
  "py_upper s = concat (map upper_char s)"

definition py_lower :: "pystr \<Rightarrow> pystr" where
  "py_lower s = map lower_char s"

text \<open>\<^verbatim>\<open>s.replace(" ", "")\<close>: every space character is deleted.\<close>

definition remove_spaces :: "pystr \<Rightarrow> pystr" where
  "remove_spaces s = filter (\<lambda>c. c \<noteq> Latin1 (CHR '' '')) s"

text \<open>
  \<^verbatim>\<open>s.isdigit()\<close>: non-empty and every character a digit; the digits of
  \<^verbatim>\<open>str.isdigit\<close> are \<^verbatim>\<open>0\<close> to \<^verbatim>\<open>9\<close> and the superscripts U+00B2, U+00B3 and U+00B9.
\<close>

definition isdigit_char :: "pychar \<Rightarrow> bool" where
  "isdigit_char c =
     (case c of
        Latin1 a \<Rightarrow> a \<in> set (ascii_digits @ [CHR 0xB2, CHR 0xB3, CHR 0xB9])
      | _ \<Rightarrow> False)"

definition py_isdigit :: "pystr \<Rightarrow> bool" where
  "py_isdigit s = (s \<noteq> [] \<and> list_all isdigit_char s)"

text \<open>\<^verbatim>\<open>sub in s\<close>: \<^verbatim>\<open>sub\<close> occurs in \<^verbatim>\<open>s\<close> as a contiguous run.\<close>

fun py_in :: "pystr \<Rightarrow> pystr \<Rightarrow> bool" where
  "py_in sub [] = (sub = [])"
| "py_in sub (c # cs) = (prefix sub (c # cs) \<or> py_in sub cs)"

subsection \<open>The three regular expressions of the source\<close>

text \<open>\<^verbatim>\<open>re.sub(r'[^\d]', '', text)\<close>: every character that is not a digit is deleted.\<close>

definition re_sub_non_digits :: "pystr \<Rightarrow> pystr" where
  "re_sub_non_digits text = filter is_digit_09 text"

text \<open>\<^verbatim>\<open>re.search(r'[a-zA-Z]', name)\<close>, as a truth value: some character is a letter.\<close>

definition re_search_alpha :: "pystr \<Rightarrow> bool" where
  "re_search_alpha s = list_ex is_alpha_azAZ s"

text \<open>
  A pattern that is a sequence of one-character classes is matched from the start of
  the text, one class per character; the result is the text left over.
\<close>

fun match_classes :: "(pychar \<Rightarrow> bool) list \<Rightarrow> pystr \<Rightarrow> pystr option" where
  "match_classes [] s = Some s"
| "match_classes (p # ps) [] = None"
| "match_classes (p # ps) (c # cs) = (if p c then match_classes ps cs else None)"

text \<open>
  Python's \<^verbatim>\<open>$\<close> (without \<^verbatim>\<open>re.MULTILINE\<close>) holds at the end of the text and
  just before a line feed that ends the text.
\<close>

definition at_dollar :: "pystr \<Rightarrow> bool" where
  "at_dollar rest = (rest = [] \<or> rest = [Latin1 (CHR 0x0A)])"

text \<open>\<^verbatim>\<open>bool(re.match(r'^[A-Z]{5}[0-9]{4}[A-Z]$', s))\<close>.\<close>

definition pan_pattern :: "(pychar \<Rightarrow> bool) list" where
  "pan_pattern = replicate 5 is_upper_AZ @ replicate 4 is_digit_09 @ [is_upper_AZ]"

definition re_match_pan :: "pystr \<Rightarrow> bool" where
  "re_match_pan s =
     (case match_classes pan_pattern s of None \<Rightarrow> False | Some rest \<Rightarrow> at_dollar rest)"

section \<open>Validation and extraction\<close>

text \<open>
  \<^verbatim>\<open>validate_name\<close>: \<^verbatim>\<open>not name\<close> is true of the empty text.
\<close>

definition validate_name :: "pystr \<Rightarrow> bool" where
  "validate_name name =
     (if name = [] \<or> length (py_strip name) < 2 then False
      else if \<not> re_search_alpha name then False
      else True)"

definition validate_phone :: "pystr \<Rightarrow> bool" where
  "validate_phone phone =
     (let phone_cleaned = re_sub_non_digits phone
      in length phone_cleaned = 10 \<and> py_isdigit phone_cleaned)"

definition validate_pan :: "pystr \<Rightarrow> bool" where
  "validate_pan pan =
     (let pan_cleaned = py_upper (remove_spaces pan)
      in length pan_cleaned = 10 \<and> re_match_pan pan_cleaned)"

definition extract_phone :: "pystr \<Rightarrow> pystr" where
  "extract_phone text =
     (let digits = re_sub_non_digits text
      in if length digits \<ge> 10 then take 10 digits else digits)"

definition extract_pan :: "pystr \<Rightarrow> pystr" where
  "extract_pan text = py_upper (remove_spaces text)"

text \<open>
  The wording of the specification for the identifier: five letters, then four digits,
  then one letter, and nothing else.
\<close>

definition five_four_one :: "pystr \<Rightarrow> bool" where
  "five_four_one s =
     (length s = 10 \<and> list_all is_upper_AZ (take 5 s)
      \<and> list_all is_digit_09 (take 4 (drop 5 s)) \<and> list_all is_upper_AZ (drop 9 s))"

text \<open>
  The wording of the specification for the name speaks of an alphabetic character. In
  the alphabet of the model the letters of Unicode (\<^verbatim>\<open>str.isalpha\<close>) are \<^verbatim>\<open>A\<close> to \<^verbatim>\<open>Z\<close>,
  \<^verbatim>\<open>a\<close> to \<^verbatim>\<open>z\<close>, the ordinal indicators U+00AA and U+00BA, the micro sign U+00B5, U+00C0
  to U+00FF without the multiplication and the division sign, and the three code points
  beyond U+00FF.
\<close>

definition is_alphabetic :: "pychar \<Rightarrow> bool" where
  "is_alphabetic c =
     (case c of
        Latin1 a \<Rightarrow>
          a \<in> set (ascii_uppercase @ ascii_lowercase @ [CHR 0xAA, CHR 0xB5, CHR 0xBA]
                    @ latin1_uppercase @ [CHR 0xDF] @ latin1_lowercase @ [CHR 0xFF])
      | _ \<Rightarrow> True)"

section \<open>The bot, its surroundings and the record it fills\<close>

text \<open>
  \<^verbatim>\<open>self.kyc_data\<close>: the session record, with the five keys that \<^verbatim>\<open>__init__\<close>
  creates (\<^verbatim>\<open>pan\<close> is the identifier of the specification).
\<close>

record kyc_data =
  name :: pystr
  phone :: pystr
  pan :: pystr
  consent :: bool
  timestamp :: pystr

record bot =
  kyc_data :: kyc_data
  max_retries :: nat

datatype field_key = Name | Phone | Pan | Consent | Timestamp

datatype field_val = Text pystr | Flag bool

text \<open>
  What a run does to the outside is kept as a history, oldest event first: every text
  handed to \<^verbatim>\<open>speak\<close>, every result of \<^verbatim>\<open>listen\<close>, and every assignment to a key of
  \<^verbatim>\<open>self.kyc_data\<close>.
\<close>

datatype event = Speak pystr | Listen "pystr option" | Store field_key field_val

text \<open>
  The surroundings of the bot. \<open>pending\<close> holds, for the calls of \<^verbatim>\<open>listen\<close> still to
  come, what the recogniser does: \<open>Some text\<close> when it recognises \<^verbatim>\<open>text\<close>, \<open>None\<close> when it
  raises \<^verbatim>\<open>WaitTimeoutError\<close>, \<^verbatim>\<open>UnknownValueError\<close> or \<^verbatim>\<open>RequestError\<close>; a user who has
  nothing more to say is a time-out. \<open>clock\<close> is the text that
  \<^verbatim>\<open>datetime.now().isoformat()\<close> gives, \<open>writable\<close> tells whether opening and writing the
  output file succeeds, and \<open>files\<close> maps a file name to the record dumped into it.
  Console output (\<^verbatim>\<open>print\<close>), pauses (\<^verbatim>\<open>time.sleep\<close>) and the failures of the speech
  engine, which \<^verbatim>\<open>speak\<close> swallows, are left out.
\<close>

record world =
  pending :: "pystr option list"
  clock :: pystr
  writable :: bool
  files :: "string \<rightharpoonup> kyc_data"
  trace :: "event list"

definition KYCVoiceBot_init :: bot where
  "KYCVoiceBot_init =
     \<lparr>kyc_data = \<lparr>name = [], phone = [], pan = [], consent = False, timestamp = []\<rparr>,
      max_retries = 2\<rparr>"

definition speak :: "pystr \<Rightarrow> world \<Rightarrow> world" where
  "speak text w = w\<lparr>trace := trace w @ [Speak text]\<rparr>"

text \<open>\<^verbatim>\<open>listen\<close> returns the recognised text stripped, or \<^verbatim>\<open>None\<close>.\<close>

definition listen :: "world \<Rightarrow> pystr option \<times> world" where
  "listen w =
     (case pending w of
        [] \<Rightarrow> (None, w\<lparr>trace := trace w @ [Listen None]\<rparr>)
      | r # rs \<Rightarrow>
          (let res = map_option py_strip r
           in (res, w\<lparr>pending := rs, trace := trace w @ [Listen res]\<rparr>)))"

section \<open>Collecting one field\<close>

text \<open>
  The loop \<^verbatim>\<open>for attempt in range(self.max_retries)\<close> of \<^verbatim>\<open>get_input_with_retry\<close>, as a
  recursion over the attempts still to run; the first equation is the code after the
  loop. In the loop body \<^verbatim>\<open>self.max_retries\<close> is at least 1, so the subtraction on
  \<^typ>\<open>nat\<close> is Python's.
\<close>

fun validation_retries ::
  "bot \<Rightarrow> (pystr \<Rightarrow> bool) \<Rightarrow> (pystr \<Rightarrow> pystr) option \<Rightarrow> pystr \<Rightarrow> nat list \<Rightarrow> world
     \<Rightarrow> pystr option \<times> world" where
  "validation_retries self validation_func extract_func field_name [] w =
     (None, speak (str ''I was unable to verify your '' @ field_name @ str ''.'') w)"
| "validation_retries self validation_func extract_func field_name (attempt # attempts) w =
     (let w1 = speak (str ''That '' @ field_name @ str '' doesn't seem valid. Please try again.'') w;
          (user_input, w2) = listen w1
      in case user_input of
           None \<Rightarrow>
             if attempt < max_retries self - 1
             then validation_retries self validation_func extract_func field_name attempts
                    (speak (str ''I didn't catch that. Let's try again.'') w2)
             else (None, speak (str ''I'm sorry, I couldn't hear your response.'') w2)
         | Some text \<Rightarrow>
             (let processed_input = (case extract_func of Some f \<Rightarrow> f text | None \<Rightarrow> text)
              in if validation_func processed_input then (Some processed_input, w2)
                 else validation_retries self validation_func extract_func field_name
                        attempts w2))"

text \<open>
  The part of \<^verbatim>\<open>get_input_with_retry\<close> from \<^verbatim>\<open># Now we have input, validate it\<close> on, which
  every branch that has captured a text falls through to.
\<close>

definition validate_captured ::
  "bot \<Rightarrow> (pystr \<Rightarrow> bool) \<Rightarrow> (pystr \<Rightarrow> pystr) option \<Rightarrow> pystr \<Rightarrow> pystr \<Rightarrow> world
     \<Rightarrow> pystr option \<times> world" where
  "validate_captured self validation_func extract_func field_name user_input w =
     (let processed_input = (case extract_func of Some f \<Rightarrow> f user_input | None \<Rightarrow> user_input)
      in if validation_func processed_input then (Some processed_input, w)
         else validation_retries self validation_func extract_func field_name
                [0..<max_retries self] w)"

definition get_input_with_retry ::
  "bot \<Rightarrow> pystr \<Rightarrow> (pystr \<Rightarrow> bool) \<Rightarrow> (pystr \<Rightarrow> pystr) option \<Rightarrow> pystr \<Rightarrow> world
     \<Rightarrow> pystr option \<times> world" where
  "get_input_with_retry self prompt validation_func extract_func field_name w =
     (let (user_input, w1) = listen (speak prompt w)
      in case user_input of
           Some text \<Rightarrow> validate_captured self validation_func extract_func field_name text w1
         | None \<Rightarrow>
             (let (user_input, w2) =
                    listen (speak (str ''I didn't catch that. Please say it again.'') w1)
              in case user_input of
                   Some text \<Rightarrow>
                     validate_captured self validation_func extract_func field_name text w2
                 | None \<Rightarrow>
                     (let (user_input, w3) =
                            listen (speak
                              (str ''I'm still having trouble hearing you. Let's try one more time.'')
                              w2)
                      in case user_input of
                           Some text \<Rightarrow>
                             validate_captured self validation_func extract_func field_name
                               text w3
                         | None \<Rightarrow>
                             (None,
                              speak (str ''I'm sorry, I couldn't hear your '' @ field_name @ str ''.'')
                                w3))))"

section \<open>Collecting consent\<close>

text \<open>The loop of \<^verbatim>\<open>get_consent\<close>; the first equation is the code after the loop.\<close>

fun consent_retries :: "bot \<Rightarrow> nat list \<Rightarrow> world \<Rightarrow> bool \<times> world" where
  "consent_retries self [] w =
     (False, speak (str ''I couldn't understand your response. Verification cannot proceed.'') w)"
| "consent_retries self (attempt # attempts) w =
     (let (response, w2) = listen (speak (str ''Please say yes or no.'') w)
      in case response of
           None \<Rightarrow>
             if attempt < max_retries self - 1
             then consent_retries self attempts (speak (str ''I didn't hear you. Say yes or no.'') w2)
             else (False,
                   speak (str ''I couldn't get your consent. Verification cannot proceed.'') w2)
         | Some text \<Rightarrow>
             (let response_lower = py_lower text
              in if py_in (str ''yes'') response_lower \<or> py_in (str ''yeah'') response_lower
                    \<or> py_in (str ''sure'') response_lower
                 then (True, w2)
                 else if py_in (str ''no'') response_lower \<or> py_in (str ''nope'') response_lower
                 then (False,
                       speak (str ''You have declined consent. Verification cannot proceed.'') w2)
                 else consent_retries self attempts w2))"

text \<open>
  The part of \<^verbatim>\<open>get_consent\<close> from \<^verbatim>\<open># Check the response\<close> on, reached with a captured
  response.
\<close>

definition check_response :: "bot \<Rightarrow> pystr \<Rightarrow> world \<Rightarrow> bool \<times> world" where
  "check_response self response w =
     (let response_lower = py_lower response
      in if py_in (str ''yes'') response_lower \<or> py_in (str ''yeah'') response_lower
            \<or> py_in (str ''sure'') response_lower
         then (True, w)
         else if py_in (str ''no'') response_lower \<or> py_in (str ''nope'') response_lower
         then (False, speak (str ''You have declined consent. Verification cannot proceed.'') w)
         else consent_retries self [0..<max_retries self] w)"

definition get_consent :: "bot \<Rightarrow> world \<Rightarrow> bool \<times> world" where
  "get_consent self w =
     (let (response, w1) =
            listen (speak (str ''Do you consent to this KYC verification? Please say yes or no.'') w)
      in case response of
           Some text \<Rightarrow> check_response self text w1
         | None \<Rightarrow>
             (let (response, w2) =
                    listen (speak (str ''I didn't catch that. Do you consent? Say yes or no.'') w1)
              in case response of
                   Some text \<Rightarrow> check_response self text w2
                 | None \<Rightarrow>
                     (let (response, w3) =
                            listen (speak (str ''Please say yes or no for consent.'') w2)
                      in case response of
                           Some text \<Rightarrow> check_response self text w3
                         | None \<Rightarrow>
                             (False,
                              speak
                                (str ''I couldn't get your consent. Verification cannot proceed.'')
                                w3))))"

section \<open>The session\<close>

text \<open>
  The three calls of \<^verbatim>\<open>get_input_with_retry\<close> in \<^verbatim>\<open>run_kyc_session\<close> (steps 1 to 3), and
  the text of the welcome.
\<close>

definition welcome_message :: pystr where
  "welcome_message =
     str ''Welcome to Decentro KYC verification. I will guide you through a quick verification process.''"

definition collect_name :: "bot \<Rightarrow> world \<Rightarrow> pystr option \<times> world" where
  "collect_name self w =
     get_input_with_retry self (str ''May I have your full name please?'')
       validate_name None (str ''name'') w"

definition collect_phone :: "bot \<Rightarrow> world \<Rightarrow> pystr option \<times> world" where
  "collect_phone self w =
     get_input_with_retry self (str ''Thank you. Now, please provide your 10-digit mobile number.'')
       validate_phone (Some extract_phone) (str ''phone number'') w"

definition collect_pan :: "bot \<Rightarrow> world \<Rightarrow> pystr option \<times> world" where
  "collect_pan self w =
     get_input_with_retry self
       (str ''Great. Now, please say your PAN number. That's 10 characters: 5 letters, 4 numbers, and 1 letter.'')
       validate_pan (Some extract_pan) (str ''PAN'') w"

text \<open>An assignment \<^verbatim>\<open>self.kyc_data[key] = value\<close> enters the history.\<close>

definition stored :: "field_key \<Rightarrow> field_val \<Rightarrow> world \<Rightarrow> world" where
  "stored k v w = w\<lparr>trace := trace w @ [Store k v]\<rparr>"

text \<open>Steps 4 and 5 of \<^verbatim>\<open>run_kyc_session\<close>: consent, summary, time stamp.\<close>

definition consent_and_summary :: "bot \<Rightarrow> world \<Rightarrow> bool \<times> bot \<times> world" where
  "consent_and_summary self w =
     (let (consent_given, w1) = get_consent self w;
          self1 = self\<lparr>kyc_data := (kyc_data self)\<lparr>consent := consent_given\<rparr>\<rparr>;
          w2 = stored Consent (Flag consent_given) w1
      in if \<not> consent_given then (False, self1, w2)
         else
           (let w3 = speak (str ''Thank you. Let me confirm your details.'') w2;
                w4 = speak (str ''Name: '' @ name (kyc_data self1)) w3;
                w5 = speak (str ''Phone: '' @ phone (kyc_data self1)) w4;
                w6 = speak (str ''PAN: '' @ pan (kyc_data self1)) w5;
                w7 = speak (str ''Consent: Provided'') w6;
                self2 = self1\<lparr>kyc_data := (kyc_data self1)\<lparr>timestamp := clock w7\<rparr>\<rparr>;
                w8 = stored Timestamp (Text (clock w7)) w7;
                w9 = speak
                       (str ''Your KYC verification is complete. Thank you for using Decentro services.'')
                       w8
            in (True, self2, w9)))"

text \<open>Step 3 and what follows it.\<close>

definition pan_step :: "bot \<Rightarrow> world \<Rightarrow> bool \<times> bot \<times> world" where
  "pan_step self w =
     (let (pan_input, w1) =
            collect_pan self w
      in case pan_input of
           Some p \<Rightarrow>
             if p \<noteq> []
             then consent_and_summary (self\<lparr>kyc_data := (kyc_data self)\<lparr>pan := p\<rparr>\<rparr>)
                    (stored Pan (Text p) w1)
             else (False, self,
                   speak (str ''Unable to proceed without a valid PAN. Ending verification.'') w1)
         | None \<Rightarrow>
             (False, self,
              speak (str ''Unable to proceed without a valid PAN. Ending verification.'') w1))"

text \<open>Step 2 and what follows it.\<close>

definition phone_step :: "bot \<Rightarrow> world \<Rightarrow> bool \<times> bot \<times> world" where
  "phone_step self w =
     (let (phone_input, w1) =
            collect_phone self w
      in case phone_input of
           Some p \<Rightarrow>
             if p \<noteq> []
             then pan_step (self\<lparr>kyc_data := (kyc_data self)\<lparr>phone := p\<rparr>\<rparr>)
                    (stored Phone (Text p) w1)
             else (False, self,
                   speak (str ''Unable to proceed without a valid phone number. Ending verification.'')
                     w1)
         | None \<Rightarrow>
             (False, self,
              speak (str ''Unable to proceed without a valid phone number. Ending verification.'')
                w1))"

text \<open>
  \<^verbatim>\<open>run_kyc_session\<close>: the welcome, step 1 and what follows it. \<^verbatim>\<open>if name:\<close> is false
  of \<^verbatim>\<open>None\<close> and of the empty text. The result is the returned truth value with the
  bot and the surroundings as the run leaves them.
\<close>

definition run_kyc_session :: "bot \<Rightarrow> world \<Rightarrow> bool \<times> bot \<times> world" where
  "run_kyc_session self w =
     (let w0 = speak welcome_message w;
          (name_input, w1) =
            collect_name self w0
      in case name_input of
           Some n \<Rightarrow>
             if n \<noteq> []
             then phone_step (self\<lparr>kyc_data := (kyc_data self)\<lparr>name := n\<rparr>\<rparr>)
                    (stored Name (Text n) w1)
             else (False, self,
                   speak (str ''Unable to proceed without a valid name. Ending verification.'') w1)
         | None \<Rightarrow>
             (False, self,
              speak (str ''Unable to proceed without a valid name. Ending verification.'') w1))"

text \<open>
  \<^verbatim>\<open>save_to_json\<close>: the record is dumped into the file; an exception while opening or
  writing is caught and gives \<^verbatim>\<open>False\<close>.
\<close>

definition save_to_json :: "bot \<Rightarrow> string \<Rightarrow> world \<Rightarrow> bool \<times> world" where
  "save_to_json self filename w =
     (if writable w then (True, w\<lparr>files := (files w)(filename \<mapsto> kyc_data self)\<rparr>)
      else (False, w))"

text \<open>
  \<^verbatim>\<open>main\<close>: a fresh bot runs the session, and the record is saved only when the session
  succeeded. The result is the truth value of the session, the bot and the surroundings.
\<close>

definition main :: "world \<Rightarrow> bool \<times> bot \<times> world" where
  "main w =
     (let (success, self, w1) = run_kyc_session KYCVoiceBot_init w
      in if success then (success, self, snd (save_to_json self ''kyc_session.json'' w1))
         else (success, self, w1))"

section \<open>Reading a history\<close>

text \<open>
  The definitions of this section are not code of the bot: they read off a history and
  a record what the properties proved below speak about.
\<close>

fun listens :: "event list \<Rightarrow> pystr option list" where
  "listens [] = []"
| "listens (Listen r # es) = r # listens es"
| "listens (e # es) = listens es"

fun spoken :: "event list \<Rightarrow> pystr list" where
  "spoken [] = []"
| "spoken (Speak t # es) = t # spoken es"
| "spoken (e # es) = spoken es"

fun stores :: "event list \<Rightarrow> (field_key \<times> field_val) list" where
  "stores [] = []"
| "stores (Store k v # es) = (k, v) # stores es"
| "stores (e # es) = stores es"

text \<open>
  The surroundings after the events \<open>evs\<close> have happened in \<open>w\<close>: the history grows by
  them and every call of \<^verbatim>\<open>listen\<close> uses up one pending answer.
\<close>

definition run_from :: "world \<Rightarrow> event list \<Rightarrow> world" where
  "run_from w evs =
     w\<lparr>pending := drop (length (listens evs)) (pending w), trace := trace w @ evs\<rparr>"

text \<open>What the next call of \<^verbatim>\<open>listen\<close> returns.\<close>

definition heard_next :: "world \<Rightarrow> pystr option" where
  "heard_next w = (case pending w of [] \<Rightarrow> None | r # rs \<Rightarrow> map_option py_strip r)"

text \<open>The events that happened between \<open>w\<close> and a later \<open>w'\<close>.\<close>

definition new_events :: "world \<Rightarrow> world \<Rightarrow> event list" where
  "new_events w w' = drop (length (trace w)) (trace w')"

text \<open>The lines of the confirmation summary (step 5 of the session).\<close>

definition summary_line :: "pystr \<Rightarrow> bool" where
  "summary_line t =
     (t = str ''Thank you. Let me confirm your details.'' \<or> prefix (str ''Name: '') t
      \<or> prefix (str ''Phone: '') t \<or> prefix (str ''PAN: '') t \<or> t = str ''Consent: Provided'')"

definition decline_ack :: pystr where
  "decline_ack = str ''You have declined consent. Verification cannot proceed.''"

text \<open>
  A stretch of dialogue with at most \<open>n\<close> calls of \<^verbatim>\<open>listen\<close>: only speaking and
  listening, nothing stored, no line of the summary spoken.
\<close>

definition dialogue :: "nat \<Rightarrow> world \<Rightarrow> world \<Rightarrow> bool" where
  "dialogue n w w' =
     (\<exists>evs. w' = run_from w evs \<and> stores evs = [] \<and> \<not> list_ex summary_line (spoken evs)
            \<and> length (listens evs) \<le> n)"

text \<open>
  The results of the calls of \<^verbatim>\<open>listen\<close> up to and including the first captured text,
  and those after it.
\<close>

definition before_capture :: "pystr option list \<Rightarrow> pystr option list" where
  "before_capture rs =
     takeWhile (\<lambda>r. r = None) rs @ take 1 (dropWhile (\<lambda>r. r = None) rs)"

definition after_capture :: "pystr option list \<Rightarrow> pystr option list" where
  "after_capture rs = drop 1 (dropWhile (\<lambda>r. r = None) rs)"

text \<open>Replaying the assignments of a history on a record.\<close>

fun set_field :: "kyc_data \<Rightarrow> field_key \<times> field_val \<Rightarrow> kyc_data" where
  "set_field d (Name, Text s) = d\<lparr>name := s\<rparr>"
| "set_field d (Phone, Text s) = d\<lparr>phone := s\<rparr>"
| "set_field d (Pan, Text s) = d\<lparr>pan := s\<rparr>"
| "set_field d (Consent, Flag b) = d\<lparr>consent := b\<rparr>"
| "set_field d (Timestamp, Text s) = d\<lparr>timestamp := s\<rparr>"
| "set_field d (k, v) = d"

definition replay :: "event list \<Rightarrow> kyc_data \<Rightarrow> kyc_data" where
  "replay evs d = foldl set_field d (stores evs)"

text \<open>The constraints of the data model on the three text fields.\<close>

definition ten_digits :: "pystr \<Rightarrow> bool" where
  "ten_digits s = (length s = 10 \<and> list_all is_digit_09 s)"

definition record_ok :: "kyc_data \<Rightarrow> bool" where
  "record_ok d =
     ((name d = [] \<or> validate_name (name d)) \<and> (phone d = [] \<or> ten_digits (phone d))
      \<and> (pan d = [] \<or> five_four_one (pan d)))"

definition field_order :: "field_key list" where
  "field_order = [Name, Phone, Pan, Consent, Timestamp]"

text \<open>\<^verbatim>\<open>extract_func(user_input) if extract_func else user_input\<close>.\<close>

definition candidate :: "(pystr \<Rightarrow> pystr) option \<Rightarrow> pystr \<Rightarrow> pystr" where
  "candidate extract_func user_input =
     (case extract_func of Some f \<Rightarrow> f user_input | None \<Rightarrow> user_input)"

text \<open>
  An assignment that respects the data model: a valid name, a phone of ten digits, an
  identifier of the form five letters, four digits, one letter, a truth value for consent,
  the reading \<open>c\<close> of the clock for the time stamp.
\<close>

fun value_ok :: "pystr \<Rightarrow> field_key \<times> field_val \<Rightarrow> bool" where
  "value_ok c (Name, Text s) = validate_name s"
| "value_ok c (Phone, Text s) = ten_digits s"
| "value_ok c (Pan, Text s) = five_four_one s"
| "value_ok c (Consent, Flag b) = True"
| "value_ok c (Timestamp, Text s) = (s = c)"
| "value_ok c (k, v) = False"

text \<open>
  A part of the session that assigns the keys \<open>ks\<close> in this order: what it does is a
  history \<open>evs\<close> after which the record is the replayed one; it assigns a first part
  of \<open>ks\<close>, all of \<open>ks\<close> when it succeeds, with values that respect the data model;
  when it fails it neither stamps the time nor speaks a line of the summary.
\<close>

definition session_part :: "field_key list \<Rightarrow> bot \<Rightarrow> world \<Rightarrow> bool \<times> bot \<times> world \<Rightarrow> bool" where
  "session_part ks self w res =
     (\<exists>evs. snd (snd res) = run_from w evs
        \<and> kyc_data (fst (snd res)) = replay evs (kyc_data self)
        \<and> max_retries (fst (snd res)) = max_retries self
        \<and> prefix (map fst (stores evs)) ks
        \<and> list_all (value_ok (clock w)) (stores evs)
        \<and> (if fst res then map fst (stores evs) = ks
            else Timestamp \<notin> set (map fst (stores evs))
                 \<and> \<not> list_ex summary_line (spoken evs)))"

subsection \<open>Consent as the specification words it\<close>

text \<open>
  A response is affirmative when its lower-cased text contains \<^verbatim>\<open>yes\<close>, \<^verbatim>\<open>yeah\<close> or
  \<^verbatim>\<open>sure\<close>, negative when it contains \<^verbatim>\<open>no\<close> or \<^verbatim>\<open>nope\<close>.
\<close>

definition affirmative :: "pystr \<Rightarrow> bool" where
  "affirmative r =
     (sublist (str ''yes'') (py_lower r) \<or> sublist (str ''yeah'') (py_lower r) \<or> sublist (str ''sure'') (py_lower r))"

definition negative :: "pystr \<Rightarrow> bool" where
  "negative r = (sublist (str ''no'') (py_lower r) \<or> sublist (str ''nope'') (py_lower r))"

datatype verdict = Affirmed | Declined | Unresolved

text \<open>
  The validation retries of consent over what the coming calls of \<^verbatim>\<open>listen\<close> return:
  an affirmative response affirms, a negative one that is not affirmative declines,
  and a capture absence or any other response uses up one retry.
\<close>

fun retry_verdict :: "nat \<Rightarrow> pystr option list \<Rightarrow> verdict" where
  "retry_verdict 0 hs = Unresolved"
| "retry_verdict (Suc n) [] = retry_verdict n []"
| "retry_verdict (Suc n) (None # hs) = retry_verdict n hs"
| "retry_verdict (Suc n) (Some r # hs) =
     (if affirmative r then Affirmed else if negative r then Declined
      else retry_verdict n hs)"

text \<open>The first captured text within \<open>n\<close> calls of \<^verbatim>\<open>listen\<close>, with what is heard after it.\<close>

fun first_capture :: "nat \<Rightarrow> pystr option list \<Rightarrow> (pystr \<times> pystr option list) option" where
  "first_capture 0 hs = None"
| "first_capture (Suc n) [] = None"
| "first_capture (Suc n) (None # hs) = first_capture n hs"
| "first_capture (Suc n) (Some r # hs) = Some (r, hs)"

definition consent_verdict :: "nat \<Rightarrow> pystr option list \<Rightarrow> verdict" where
  "consent_verdict m hs =
     (case first_capture 3 hs of
        None \<Rightarrow> Unresolved
      | Some (r, hs') \<Rightarrow>
          if affirmative r then Affirmed else if negative r then Declined
          else retry_verdict m hs')"

text \<open>What the calls of \<^verbatim>\<open>listen\<close> to come return, in order.\<close>

definition heard :: "world \<Rightarrow> pystr option list" where
  "heard w = map (map_option py_strip) (pending w)"

text \<open>
  A run of the consent dialogue with verdict \<open>v\<close> and at most \<open>n\<close> calls of
  \<^verbatim>\<open>listen\<close>: the result is true exactly for \<open>Affirmed\<close>, the decline is acknowledged
  exactly for \<open>Declined\<close>, nothing is stored and no line of the summary is spoken.
\<close>

definition consent_run :: "verdict \<Rightarrow> nat \<Rightarrow> world \<Rightarrow> bool \<times> world \<Rightarrow> bool" where
  "consent_run v n w res =
     (fst res = (v = Affirmed)
      \<and> (\<exists>evs. snd res = run_from w evs \<and> stores evs = []
             \<and> \<not> list_ex summary_line (spoken evs) \<and> length (listens evs) \<le> n
             \<and> (decline_ack \<in> set (spoken evs)) = (v = Declined)))"

section \<open>Facts about the text primitives\<close>

lemma py_in_sublist: "py_in sub s = sublist sub s"
  by (induction s) (auto simp: sublist_Cons_right)

lemma re_sub_non_digits_take:
  "re_sub_non_digits (take n (re_sub_non_digits s)) = take n (re_sub_non_digits s)"
proof -
  have "set (take n (filter is_digit_09 s)) \<subseteq> set (filter is_digit_09 s)"
    by (rule set_take_subset)
  then have "\<forall>c \<in> set (take n (filter is_digit_09 s)). is_digit_09 c"
    by fastforce
  then show ?thesis
    unfolding re_sub_non_digits_def by (simp only: filter_id_conv)
qed

lemma extract_phone_eq: "extract_phone s = take 10 (filter is_digit_09 s)"
  by (simp add: extract_phone_def re_sub_non_digits_def Let_def)

lemma is_digit_09_isdigit_char: "is_digit_09 c \<Longrightarrow> isdigit_char c"
  by (cases c) (simp_all add: is_digit_09_def isdigit_char_def)

lemma validate_phone_iff: "validate_phone s = (length (filter is_digit_09 s) = 10)"
proof -
  have "list_all isdigit_char (filter is_digit_09 s)"
    by (simp add: list_all_iff is_digit_09_isdigit_char)
  then show ?thesis
    by (auto simp: validate_phone_def re_sub_non_digits_def py_isdigit_def Let_def)
qed

lemma validate_phone_extract_phone:
  "validate_phone (extract_phone s) = (10 \<le> length (filter is_digit_09 s))"
proof -
  have "filter is_digit_09 (take 10 (filter is_digit_09 s)) = take 10 (filter is_digit_09 s)"
    using re_sub_non_digits_take [of 10 s] by (simp add: re_sub_non_digits_def)
  then show ?thesis
    by (simp add: validate_phone_iff extract_phone_eq min_def)
qed

lemma length_ten_cases:
  "length s = 10 \<Longrightarrow> \<exists>a b c d e f g h i j. s = [a, b, c, d, e, f, g, h, i, j]"
  by (auto simp: numeral_eq_Suc length_Suc_conv)

lemma re_match_pan_exact: "(length s = 10 \<and> re_match_pan s) = five_four_one s"
proof (cases "length s = 10")
  case True
  then obtain a b c d e f g h i j where s: "s = [a, b, c, d, e, f, g, h, i, j]"
    using length_ten_cases [of s] by auto
  show ?thesis
    by (simp add: s re_match_pan_def pan_pattern_def five_four_one_def at_dollar_def
        numeral_eq_Suc)
next
  case False
  then show ?thesis by (simp add: five_four_one_def)
qed

lemma validate_pan_five_four_one:
  "validate_pan s = five_four_one (py_upper (remove_spaces s))"
  using re_match_pan_exact [of "py_upper (remove_spaces s)"]
  by (simp add: validate_pan_def Let_def)

lemma py_strip_decomposition:
  "\<exists>a b. s = a @ py_strip s @ b \<and> list_all py_isspace a \<and> list_all py_isspace b"
proof -
  define d where "d = dropWhile py_isspace s"
  have 1: "s = takeWhile py_isspace s @ d"
    by (simp add: d_def)
  have "rev (takeWhile py_isspace (rev d) @ dropWhile py_isspace (rev d)) = rev (rev d)"
    by (simp only: takeWhile_dropWhile_id)
  then have "rev (dropWhile py_isspace (rev d)) @ rev (takeWhile py_isspace (rev d)) = d"
    by (simp only: rev_append rev_rev_ident)
  then have 2: "d = py_strip s @ rev (takeWhile py_isspace (rev d))"
    unfolding py_strip_def d_def by (rule sym)
  have 3: "list_all py_isspace (takeWhile py_isspace s)"
    by (auto simp: list_all_iff dest: set_takeWhileD)
  have 4: "list_all py_isspace (rev (takeWhile py_isspace (rev d)))"
    by (auto simp: list_all_iff dest: set_takeWhileD)
  from 1 2 have "s = takeWhile py_isspace s @ py_strip s @ rev (takeWhile py_isspace (rev d))"
    by simp
  with 3 4 show ?thesis by blast
qed

lemma py_strip_ends:
  "py_strip s = [] \<or> (\<not> py_isspace (hd (py_strip s)) \<and> \<not> py_isspace (last (py_strip s)))"
proof (cases "py_strip s = []")
  case True
  then show ?thesis by simp
next
  case False
  define d where "d = dropWhile py_isspace s"
  define e where "e = dropWhile py_isspace (rev d)"
  have s: "py_strip s = rev e"
    by (simp add: py_strip_def d_def e_def)
  with False have e: "e \<noteq> []" by simp
  then have d: "d \<noteq> []" by (auto simp: e_def)
  have "\<not> py_isspace (hd e)"
    using e unfolding e_def by (rule hd_dropWhile)
  then have l: "\<not> py_isspace (last (py_strip s))"
    using e by (simp add: s last_rev)
  have "\<not> py_isspace (hd d)"
    using d unfolding d_def by (rule hd_dropWhile)
  moreover have "last e = last (rev d)"
    using e unfolding e_def
    by (metis last_appendR takeWhile_dropWhile_id)
  ultimately have "\<not> py_isspace (hd (py_strip s))"
    using e d by (simp add: s hd_rev last_rev)
  with l show ?thesis by simp
qed

section \<open>The validators\<close>

text \<open>
  Claim C4. For every text, name validation fails exactly when the trimmed text has
  fewer than two characters or the text contains none of the fifty-two letters
  \<^verbatim>\<open>a\<close> to \<^verbatim>\<open>z\<close> and \<^verbatim>\<open>A\<close> to \<^verbatim>\<open>Z\<close>. The trimmed text is what is left of the text
  between a run of white space at its start and one at its end, and is empty or
  starts and ends with a character that is not white space. \<^verbatim>\<open>A\<close> and \<^verbatim>\<open>123\<close> are
  rejected and \<^verbatim>\<open>Al\<close> is accepted; a single letter stays rejected when blanks or
  no-break spaces surround it, and two letters stay accepted when blanks do. A letter
  outside the fifty-two does not count: the text of two \<^verbatim>\<open>e\<close> with acute accent is
  rejected.
\<close>

theorem validate_name_rejects_iff:
  "((\<not> validate_name s) = (length (py_strip s) < 2 \<or> (\<forall>c \<in> set s. \<not> is_alpha_azAZ c)))
   \<and> is_alpha_azAZ c
       = (c \<in> set (str ''abcdefghijklmnopqrstuvwxyzABCDEFGHIJKLMNOPQRSTUVWXYZ''))
   \<and> (\<exists>a b. s = a @ py_strip s @ b \<and> list_all py_isspace a \<and> list_all py_isspace b)
   \<and> (py_strip s = []
        \<or> (\<not> py_isspace (hd (py_strip s)) \<and> \<not> py_isspace (last (py_strip s))))
   \<and> \<not> validate_name (str ''A'') \<and> \<not> validate_name (str ''123'')
   \<and> validate_name (str ''Al'')
   \<and> \<not> validate_name (str ''  A '') \<and> validate_name (str ''  Al '')
   \<and> \<not> validate_name [Latin1 (CHR 0xA0), Latin1 CHR ''A'', Latin1 (CHR 0xA0)]
   \<and> \<not> validate_name [Latin1 (CHR 0x85), Latin1 CHR ''A'', Latin1 (CHR 0x0A)]
   \<and> \<not> validate_name [Latin1 (CHR 0xE9), Latin1 (CHR 0xE9)]"
proof -
  have "(\<not> validate_name s) = (length (py_strip s) < 2 \<or> (\<forall>c \<in> set s. \<not> is_alpha_azAZ c))"
    by (auto simp: validate_name_def re_search_alpha_def list_ex_iff py_strip_def)
  moreover have "is_alpha_azAZ c
      = (c \<in> set (str ''abcdefghijklmnopqrstuvwxyzABCDEFGHIJKLMNOPQRSTUVWXYZ''))"
  proof -
    have "str ''abcdefghijklmnopqrstuvwxyzABCDEFGHIJKLMNOPQRSTUVWXYZ''
        = map Latin1 (ascii_lowercase @ ascii_uppercase)"
      by code_simp
    then show ?thesis
      by (cases c)
         (auto simp: is_alpha_azAZ_def is_lower_az_def is_upper_AZ_def
               simp del: map_append)
  qed
  moreover note py_strip_decomposition [of s] py_strip_ends [of s]
  moreover have "\<not> validate_name (str ''A'')" by code_simp
  moreover have "\<not> validate_name (str ''123'')" by code_simp
  moreover have "validate_name (str ''Al'')" by code_simp
  moreover have "\<not> validate_name (str ''  A '')" by code_simp
  moreover have "validate_name (str ''  Al '')" by code_simp
  moreover have "\<not> validate_name [Latin1 (CHR 0xA0), Latin1 CHR ''A'', Latin1 (CHR 0xA0)]"
    by code_simp
  moreover have "\<not> validate_name [Latin1 (CHR 0x85), Latin1 CHR ''A'', Latin1 (CHR 0x0A)]"
    by code_simp
  moreover have "\<not> validate_name [Latin1 (CHR 0xE9), Latin1 (CHR 0xE9)]"
    by code_simp
  ultimately show ?thesis by (intro conjI)
qed

theorem validate_name_rejects_iff_witness:
  "\<not> length (py_strip (str '' Jo '')) < 2 \<and> (\<exists>c \<in> set (str '' Jo ''). is_alpha_azAZ c)
   \<and> validate_name (str '' Jo '')
   \<and> \<not> (\<exists>c \<in> set (str ''42''). is_alpha_azAZ c) \<and> \<not> validate_name (str ''42'')
   \<and> length (py_strip [Latin1 (CHR 0xA0), Latin1 CHR ''J'', Latin1 CHR '' '']) < 2
   \<and> \<not> validate_name [Latin1 (CHR 0xA0), Latin1 CHR ''J'', Latin1 CHR '' '']"
proof -
  let ?s = "str '' Jo ''" and ?t = "str ''42''"
  let ?u = "[Latin1 (CHR 0xA0), Latin1 CHR ''J'', Latin1 CHR '' '']"
  have a: "\<not> length (py_strip ?s) < 2" by code_simp
  have b: "\<exists>c \<in> set ?s. is_alpha_azAZ c" by code_simp
  have c: "\<forall>c \<in> set ?t. \<not> is_alpha_azAZ c" by code_simp
  have f: "length (py_strip ?u) < 2" by code_simp
  have "(\<not> validate_name ?s) = (length (py_strip ?s) < 2 \<or> (\<forall>c \<in> set ?s. \<not> is_alpha_azAZ c))"
    using validate_name_rejects_iff [of ?s] by (rule conjunct1)
  with a b have d: "validate_name ?s" by blast
  have "(\<not> validate_name ?t) = (length (py_strip ?t) < 2 \<or> (\<forall>c \<in> set ?t. \<not> is_alpha_azAZ c))"
    using validate_name_rejects_iff [of ?t] by (rule conjunct1)
  with c have e: "\<not> validate_name ?t" by blast
  have "(\<not> validate_name ?u) = (length (py_strip ?u) < 2 \<or> (\<forall>c \<in> set ?u. \<not> is_alpha_azAZ c))"
    using validate_name_rejects_iff [of ?u] by (rule conjunct1)
  with f have g: "\<not> validate_name ?u" by blast
  from c have c': "\<not> (\<exists>c \<in> set ?t. is_alpha_azAZ c)" by blast
  from a b d c' e f g show ?thesis by (intro conjI)
qed

theorem name_alphabetic_counterexample:
  "list_ex is_alphabetic [Latin1 (CHR 0xE9), Latin1 (CHR 0xE9)]
   \<and> \<not> length (py_strip [Latin1 (CHR 0xE9), Latin1 (CHR 0xE9)]) < 2
   \<and> \<not> validate_name [Latin1 (CHR 0xE9), Latin1 (CHR 0xE9)]"
  by code_simp

text \<open>
  Claim C5. Phone extraction returns the digits of the text, cut to the first ten;
  phone validation accepts a text exactly when ten digits are left after every
  non-digit is deleted; so extraction followed by validation accepts a text exactly
  when it contains at least ten digits. The two examples of the specification are
  included. The digits are \<^verbatim>\<open>0\<close> to \<^verbatim>\<open>9\<close>: a superscript two among ten digits is
  deleted like any other character.
\<close>

theorem phone_extract_validate:
  "extract_phone s = take 10 (filter is_digit_09 s)
   \<and> validate_phone s = (length (filter is_digit_09 s) = 10)
   \<and> validate_phone (extract_phone s) = (10 \<le> length (filter is_digit_09 s))
   \<and> is_digit_09 c = (c \<in> set (str ''0123456789''))
   \<and> extract_phone (str ''my number is 98-765 43210 ok'') = str ''9876543210''
   \<and> validate_phone (str ''9876543210'')
   \<and> extract_phone (str ''123'') = str ''123'' \<and> \<not> validate_phone (str ''123'')
   \<and> extract_phone (str ''98765'' @ [Latin1 (CHR 0xB2)] @ str ''43210'') = str ''9876543210''"
proof -
  have "extract_phone (str ''my number is 98-765 43210 ok'') = str ''9876543210''"
    by code_simp
  moreover have "validate_phone (str ''9876543210'')" by code_simp
  moreover have "extract_phone (str ''123'') = str ''123''" by code_simp
  moreover have "\<not> validate_phone (str ''123'')" by code_simp
  moreover have "extract_phone (str ''98765'' @ [Latin1 (CHR 0xB2)] @ str ''43210'')
      = str ''9876543210''"
    by code_simp
  moreover have "is_digit_09 c = (c \<in> set (str ''0123456789''))"
  proof -
    have "str ''0123456789'' = map Latin1 ascii_digits" by code_simp
    then show ?thesis by (cases c) (auto simp: is_digit_09_def)
  qed
  moreover note extract_phone_eq [of s] validate_phone_iff [of s]
    validate_phone_extract_phone [of s]
  ultimately show ?thesis by (intro conjI)
qed

theorem phone_extract_validate_witness:
  "10 \<le> length (filter is_digit_09 (str ''call 98765 43210 or 11''))
   \<and> validate_phone (extract_phone (str ''call 98765 43210 or 11''))
   \<and> length (filter is_digit_09 (str ''call 98765 43210 or 11'')) \<noteq> 10
   \<and> \<not> validate_phone (str ''call 98765 43210 or 11'')"
proof -
  let ?s = "str ''call 98765 43210 or 11''"
  have a: "10 \<le> length (filter is_digit_09 ?s)" by code_simp
  have c: "length (filter is_digit_09 ?s) \<noteq> 10" by code_simp
  note T = phone_extract_validate [of ?s "Latin1 CHR ''0''"]
  from T have "validate_phone (extract_phone ?s) = (10 \<le> length (filter is_digit_09 ?s))"
    by (elim conjE)
  with a have d: "validate_phone (extract_phone ?s)" by (rule iffD2 [rotated])
  from T have "validate_phone ?s = (length (filter is_digit_09 ?s) = 10)"
    by (elim conjE)
  with c have e: "\<not> validate_phone ?s" by blast
  from a d c e show ?thesis by (intro conjI)
qed

text \<open>
  Claim C6. Identifier validation accepts a text exactly when the text with its spaces
  removed and its letters upper-cased has ten characters of the form five letters, four
  digits, one letter; \<^verbatim>\<open>a b c d e 1 2 3 4 f\<close> is accepted as \<^verbatim>\<open>ABCDE1234F\<close> and
  \<^verbatim>\<open>ABCDE12345\<close> is rejected. The letters of the pattern are \<^verbatim>\<open>A\<close> to \<^verbatim>\<open>Z\<close> and its
  digits \<^verbatim>\<open>0\<close> to \<^verbatim>\<open>9\<close>. Upper-casing is that of the language, which writes a sharp s
  as two letters: a text of nine characters with a sharp s in fourth place is accepted,
  as a text of ten.
\<close>

theorem validate_pan_pattern:
  "validate_pan s = five_four_one (py_upper (remove_spaces s))
   \<and> extract_pan s = py_upper (remove_spaces s)
   \<and> is_upper_AZ c = (c \<in> set (str ''ABCDEFGHIJKLMNOPQRSTUVWXYZ''))
   \<and> is_digit_09 c = (c \<in> set (str ''0123456789''))
   \<and> extract_pan (str ''a b c d e 1 2 3 4 f'') = str ''ABCDE1234F''
   \<and> validate_pan (str ''a b c d e 1 2 3 4 f'')
   \<and> \<not> validate_pan (str ''ABCDE12345'')
   \<and> extract_pan (str ''abc'' @ [Latin1 (CHR 0xDF)] @ str ''1234f'') = str ''ABCSS1234F''
   \<and> validate_pan (str ''abc'' @ [Latin1 (CHR 0xDF)] @ str ''1234f'')
   \<and> \<not> validate_pan (str ''abcd'' @ [Latin1 (CHR 0xE9)] @ str ''1234f'')"
proof -
  have "extract_pan (str ''a b c d e 1 2 3 4 f'') = str ''ABCDE1234F''" by code_simp
  moreover have "validate_pan (str ''a b c d e 1 2 3 4 f'')" by code_simp
  moreover have "\<not> validate_pan (str ''ABCDE12345'')" by code_simp
  moreover have "extract_pan (str ''abc'' @ [Latin1 (CHR 0xDF)] @ str ''1234f'')
      = str ''ABCSS1234F''"
    by code_simp
  moreover have "validate_pan (str ''abc'' @ [Latin1 (CHR 0xDF)] @ str ''1234f'')"
    by code_simp
  moreover have "\<not> validate_pan (str ''abcd'' @ [Latin1 (CHR 0xE9)] @ str ''1234f'')"
    by code_simp
  moreover have "is_upper_AZ c = (c \<in> set (str ''ABCDEFGHIJKLMNOPQRSTUVWXYZ''))"
  proof -
    have "str ''ABCDEFGHIJKLMNOPQRSTUVWXYZ'' = map Latin1 ascii_uppercase" by code_simp
    then show ?thesis by (cases c) (auto simp: is_upper_AZ_def)
  qed
  moreover have "is_digit_09 c = (c \<in> set (str ''0123456789''))"
  proof -
    have "str ''0123456789'' = map Latin1 ascii_digits" by code_simp
    then show ?thesis by (cases c) (auto simp: is_digit_09_def)
  qed
  moreover note validate_pan_five_four_one [of s] extract_pan_def [of s]
  ultimately show ?thesis by (intro conjI)
qed

theorem validate_pan_pattern_witness:
  "five_four_one (py_upper (remove_spaces (str ''bn zpk 4821 q'')))
   \<and> validate_pan (str ''bn zpk 4821 q'')
   \<and> \<not> five_four_one (py_upper (remove_spaces (str ''BNZPK482Q1'')))
   \<and> \<not> validate_pan (str ''BNZPK482Q1'')"
proof -
  let ?s = "str ''bn zpk 4821 q''" and ?t = "str ''BNZPK482Q1''"
  have a: "five_four_one (py_upper (remove_spaces ?s))" by code_simp
  have b: "\<not> five_four_one (py_upper (remove_spaces ?t))" by code_simp
  have "validate_pan ?s = five_four_one (py_upper (remove_spaces ?s))"
    using validate_pan_pattern [of ?s] by (rule conjunct1)
  with a have c: "validate_pan ?s" by blast
  have "validate_pan ?t = five_four_one (py_upper (remove_spaces ?t))"
    using validate_pan_pattern [of ?t] by (rule conjunct1)
  with b have d: "\<not> validate_pan ?t" by blast
  from a c b d show ?thesis by (intro conjI)
qed

section \<open>Histories, and the dialogue of one field\<close>

lemma listens_append: "listens (a @ b) = listens a @ listens b"
  by (induction a rule: listens.induct) simp_all

lemma spoken_append: "spoken (a @ b) = spoken a @ spoken b"
  by (induction a rule: spoken.induct) simp_all

lemma stores_append: "stores (a @ b) = stores a @ stores b"
  by (induction a rule: stores.induct) simp_all

lemma run_from_Nil: "run_from w [] = w"
  by (simp add: run_from_def)

lemma run_from_run_from: "run_from (run_from w a) b = run_from w (a @ b)"
  by (simp add: run_from_def listens_append add.commute)

lemma speak_run_from: "speak t w = run_from w [Speak t]"
  by (simp add: speak_def run_from_def)

lemma stored_run_from: "stored k v w = run_from w [Store k v]"
  by (simp add: stored_def run_from_def)

lemma listen_run_from: "listen w = (heard_next w, run_from w [Listen (heard_next w)])"
  by (simp add: listen_def heard_next_def run_from_def Let_def split: list.splits)

lemma run_from_fields:
  "pending (run_from w a) = drop (length (listens a)) (pending w)"
  "trace (run_from w a) = trace w @ a"
  "clock (run_from w a) = clock w"
  "writable (run_from w a) = writable w"
  "files (run_from w a) = files w"
  by (simp_all add: run_from_def)

lemma new_events_run_from: "new_events w (run_from w a) = a"
  by (simp add: new_events_def run_from_fields)

lemma heard_next_run_from:
  "heard_next (run_from w a) =
     (case drop (length (listens a)) (pending w) of [] \<Rightarrow> None | r # rs \<Rightarrow> map_option py_strip r)"
  by (simp add: heard_next_def run_from_fields)

lemma dialogue_run_from:
  "stores evs = [] \<Longrightarrow> \<not> list_ex summary_line (spoken evs) \<Longrightarrow> length (listens evs) \<le> n
     \<Longrightarrow> dialogue n w (run_from w evs)"
  unfolding dialogue_def by blast

lemma dialogue_trans:
  assumes "dialogue m w w1" and "dialogue n w1 w2"
  shows "dialogue (m + n) w w2"
proof -
  from assms(1) obtain a where a: "w1 = run_from w a" "stores a = []"
      "\<not> list_ex summary_line (spoken a)" "length (listens a) \<le> m"
    unfolding dialogue_def by blast
  from assms(2) obtain b where b: "w2 = run_from w1 b" "stores b = []"
      "\<not> list_ex summary_line (spoken b)" "length (listens b) \<le> n"
    unfolding dialogue_def by blast
  have "w2 = run_from w (a @ b)"
    by (simp add: a(1) b(1) run_from_run_from)
  moreover have "stores (a @ b) = []"
    by (simp add: stores_append a(2) b(2))
  moreover have "\<not> list_ex summary_line (spoken (a @ b))"
    using a(3) b(3) by (auto simp: spoken_append list_ex_iff)
  moreover have "length (listens (a @ b)) \<le> m + n"
    using a(4) b(4) by (simp add: listens_append)
  ultimately show ?thesis
    unfolding dialogue_def by blast
qed

lemma dialogue_mono: "dialogue m w w' \<Longrightarrow> m \<le> n \<Longrightarrow> dialogue n w w'"
  unfolding dialogue_def using le_trans by blast

lemma dialogue_refl: "dialogue 0 w w"
  using dialogue_run_from [of "[]" 0 w] by (simp add: run_from_Nil)

lemma validation_retries_Cons:
  "validation_retries self vf ef fname (attempt # attempts) w =
     (let m = str ''That '' @ fname @ str '' doesn't seem valid. Please try again.'';
          h = heard_next (run_from w [Speak m]);
          w2 = run_from w [Speak m, Listen h]
      in case h of
           None \<Rightarrow>
             if attempt < max_retries self - 1
             then validation_retries self vf ef fname attempts
                    (run_from w2 [Speak (str ''I didn't catch that. Let's try again.'')])
             else (None, run_from w2 [Speak (str ''I'm sorry, I couldn't hear your response.'')])
         | Some text \<Rightarrow>
             (let p = candidate ef text
              in if vf p then (Some p, w2)
                 else validation_retries self vf ef fname attempts w2))"
  by (simp add: speak_run_from listen_run_from run_from_run_from Let_def candidate_def
      split: option.splits)

lemma validation_retries_dialogue:
  "dialogue (length attempts) w (snd (validation_retries self vf ef fname attempts w))"
proof (induction attempts arbitrary: w)
  case Nil
  show ?case
    using dialogue_run_from [of "[Speak (str ''I was unable to verify your '' @ fname @ str ''.'')]" 0 w]
    by (simp add: speak_run_from summary_line_def str_def)
next
  case (Cons attempt attempts)
  define m where "m = str ''That '' @ fname @ str '' doesn't seem valid. Please try again.''"
  define h where "h = heard_next (run_from w [Speak m])"
  define w2 where "w2 = run_from w [Speak m, Listen h]"
  define w3 where "w3 = run_from w2 [Speak (str ''I didn't catch that. Let's try again.'')]"
  define w4 where "w4 = run_from w2 [Speak (str ''I'm sorry, I couldn't hear your response.'')]"
  have step: "validation_retries self vf ef fname (attempt # attempts) w =
     (case h of
           None \<Rightarrow>
             if attempt < max_retries self - 1
             then validation_retries self vf ef fname attempts w3
             else (None, w4)
         | Some text \<Rightarrow>
             (let p = candidate ef text
              in if vf p then (Some p, w2)
                 else validation_retries self vf ef fname attempts w2))"
    unfolding validation_retries_Cons m_def h_def w2_def w3_def w4_def Let_def ..
  have nm: "\<not> summary_line m"
    by (simp add: m_def summary_line_def str_def)
  have d2: "dialogue 1 w w2"
    unfolding w2_def using nm dialogue_run_from [of "[Speak m, Listen h]" 1 w] by simp
  have d3: "dialogue 1 w w3"
    unfolding w3_def
    using dialogue_trans [OF d2
        dialogue_run_from [of "[Speak (str ''I didn't catch that. Let's try again.'')]" 0 w2]]
    by (simp add: summary_line_def str_def)
  have d4: "dialogue 1 w w4"
    unfolding w4_def
    using dialogue_trans [OF d2
        dialogue_run_from [of "[Speak (str ''I'm sorry, I couldn't hear your response.'')]" 0 w2]]
    by (simp add: summary_line_def str_def)
  have r3: "dialogue (Suc (length attempts)) w (snd (validation_retries self vf ef fname attempts w3))"
    using dialogue_trans [OF d3 Cons.IH [of w3]] by simp
  have r2: "dialogue (Suc (length attempts)) w (snd (validation_retries self vf ef fname attempts w2))"
    using dialogue_trans [OF d2 Cons.IH [of w2]] by simp
  have m4: "dialogue (Suc (length attempts)) w w4"
    using dialogue_mono [OF d4] by simp
  have m2: "dialogue (Suc (length attempts)) w w2"
    using dialogue_mono [OF d2] by simp
  show ?case
    unfolding step using r3 r2 m4 m2
    by (simp add: Let_def split: option.splits)
qed

lemma validation_retries_valid:
  "validation_retries self vf ef fname attempts w = (Some v, w')
     \<Longrightarrow> vf v \<and> (\<exists>t. v = candidate ef t)"
proof (induction attempts arbitrary: w)
  case Nil
  then show ?case by simp
next
  case (Cons attempt attempts)
  from Cons.prems show ?case
    unfolding validation_retries_Cons Let_def
    by (auto split: option.splits if_splits dest: Cons.IH)
qed

lemma validate_captured_dialogue:
  "dialogue (max_retries self) w (snd (validate_captured self vf ef fname t w))"
  using validation_retries_dialogue [of "[0..<max_retries self]" w self vf ef fname]
    dialogue_mono [OF dialogue_refl, of "max_retries self" w]
  by (simp add: validate_captured_def Let_def)

lemma validate_captured_valid:
  "validate_captured self vf ef fname t w = (Some v, w')
     \<Longrightarrow> vf v \<and> (\<exists>t. v = candidate ef t)"
  unfolding validate_captured_def Let_def candidate_def [symmetric]
  by (auto split: if_splits dest: validation_retries_valid)

lemma get_input_with_retry_unfold:
  "get_input_with_retry self prompt vf ef fname w =
     (let h1 = heard_next (run_from w [Speak prompt]);
          w1 = run_from w [Speak prompt, Listen h1]
      in case h1 of
           Some t \<Rightarrow> validate_captured self vf ef fname t w1
         | None \<Rightarrow>
             (let h2 = heard_next (run_from w1 [Speak (str ''I didn't catch that. Please say it again.'')]);
                  w2 = run_from w1 [Speak (str ''I didn't catch that. Please say it again.''), Listen h2]
              in case h2 of
                   Some t \<Rightarrow> validate_captured self vf ef fname t w2
                 | None \<Rightarrow>
                     (let h3 = heard_next (run_from w2
                                 [Speak (str ''I'm still having trouble hearing you. Let's try one more time.'')]);
                          w3 = run_from w2
                                 [Speak (str ''I'm still having trouble hearing you. Let's try one more time.''),
                                  Listen h3]
                      in case h3 of
                           Some t \<Rightarrow> validate_captured self vf ef fname t w3
                         | None \<Rightarrow>
                             (None,
                              run_from w3
                                [Speak (str ''I'm sorry, I couldn't hear your '' @ fname @ str ''.'')]))))"
  by (simp add: get_input_with_retry_def speak_run_from listen_run_from run_from_run_from Let_def
      split: option.splits)

lemma get_input_with_retry_valid:
  "get_input_with_retry self prompt vf ef fname w = (Some v, w')
     \<Longrightarrow> vf v \<and> (\<exists>t. v = candidate ef t)"
  unfolding get_input_with_retry_unfold Let_def
  by (auto split: option.splits dest: validate_captured_valid)

lemma before_after_capture:
  assumes "\<forall>x \<in> set nones. x = None"
  shows "before_capture (nones @ Some t # ls) = nones @ [Some t]"
    and "after_capture (nones @ Some t # ls) = ls"
  using assms by (simp_all add: before_capture_def after_capture_def takeWhile_append2 dropWhile_append2)

lemma capture_then_validate:
  assumes d: "dialogue m (run_from w pre) w'"
    and pre: "listens pre = nones @ [Some t]" and nones: "\<forall>x \<in> set nones. x = None"
  shows "before_capture (listens (new_events w w')) = nones @ [Some t]
         \<and> length (after_capture (listens (new_events w w'))) \<le> m"
proof -
  from d obtain evs where evs: "w' = run_from (run_from w pre) evs" "length (listens evs) \<le> m"
    unfolding dialogue_def by blast
  have "new_events w w' = pre @ evs"
    by (simp add: evs(1) run_from_run_from new_events_run_from)
  then have "listens (new_events w w') = nones @ Some t # listens evs"
    by (simp add: listens_append pre)
  then show ?thesis
    using before_after_capture [OF nones, of t "listens evs"] evs(2) by simp
qed

lemma get_input_with_retry_listens:
  fixes self prompt vf ef fname w
  defines "ls \<equiv> listens (new_events w (snd (get_input_with_retry self prompt vf ef fname w)))"
  shows "length (before_capture ls) \<le> 3 \<and> length (after_capture ls) \<le> max_retries self"
proof -
  define m1 where "m1 = str ''I didn't catch that. Please say it again.''"
  define m2 where "m2 = str ''I'm still having trouble hearing you. Let's try one more time.''"
  define m3 where "m3 = str ''I'm sorry, I couldn't hear your '' @ fname @ str ''.''"
  define h1 where "h1 = heard_next (run_from w [Speak prompt])"
  define w1 where "w1 = run_from w [Speak prompt, Listen h1]"
  define h2 where "h2 = heard_next (run_from w1 [Speak m1])"
  define w2 where "w2 = run_from w1 [Speak m1, Listen h2]"
  define h3 where "h3 = heard_next (run_from w2 [Speak m2])"
  define w3 where "w3 = run_from w2 [Speak m2, Listen h3]"
  have step: "get_input_with_retry self prompt vf ef fname w =
     (case h1 of Some t \<Rightarrow> validate_captured self vf ef fname t w1
      | None \<Rightarrow> (case h2 of Some t \<Rightarrow> validate_captured self vf ef fname t w2
         | None \<Rightarrow> (case h3 of Some t \<Rightarrow> validate_captured self vf ef fname t w3
            | None \<Rightarrow> (None, run_from w3 [Speak m3]))))"
    unfolding get_input_with_retry_unfold m1_def m2_def m3_def h1_def w1_def h2_def w2_def
      h3_def w3_def Let_def ..
  show ?thesis
  proof (cases h1)
    case (Some t)
    have "w1 = run_from w [Speak prompt, Listen (Some t)]"
      by (simp add: w1_def Some)
    then show ?thesis
      using capture_then_validate [of "max_retries self" w "[Speak prompt, Listen (Some t)]"
          "snd (validate_captured self vf ef fname t w1)" "[]" t]
        validate_captured_dialogue [of self w1 vf ef fname t]
      by (simp add: ls_def step Some)
  next
    case n1: None
    show ?thesis
    proof (cases h2)
      case (Some t)
      have "w2 = run_from w [Speak prompt, Listen None, Speak m1, Listen (Some t)]"
        by (simp add: w2_def w1_def Some n1 run_from_run_from)
      then show ?thesis
        using capture_then_validate [of "max_retries self" w
            "[Speak prompt, Listen None, Speak m1, Listen (Some t)]"
            "snd (validate_captured self vf ef fname t w2)" "[None]" t]
          validate_captured_dialogue [of self w2 vf ef fname t]
        by (simp add: ls_def step Some n1)
    next
      case n2: None
      show ?thesis
      proof (cases h3)
        case (Some t)
        have "w3 = run_from w [Speak prompt, Listen None, Speak m1, Listen None, Speak m2,
                               Listen (Some t)]"
          by (simp add: w3_def w2_def w1_def Some n1 n2 run_from_run_from)
        then show ?thesis
          using capture_then_validate [of "max_retries self" w
              "[Speak prompt, Listen None, Speak m1, Listen None, Speak m2, Listen (Some t)]"
              "snd (validate_captured self vf ef fname t w3)" "[None, None]" t]
            validate_captured_dialogue [of self w3 vf ef fname t]
          by (simp add: ls_def step Some n1 n2)
      next
        case n3: None
        have "snd (get_input_with_retry self prompt vf ef fname w) =
                run_from w [Speak prompt, Listen None, Speak m1, Listen None, Speak m2,
                            Listen None, Speak m3]"
          by (simp add: step n1 n2 n3 w3_def w2_def w1_def run_from_run_from)
        then show ?thesis
          by (simp add: ls_def new_events_run_from before_capture_def after_capture_def)
      qed
    qed
  qed
qed

lemma before_after_capture_length:
  "length (before_capture ls) + length (after_capture ls) = length ls"
proof -
  have "length (take 1 (dropWhile (\<lambda>r. r = None) ls)) + length (drop 1 (dropWhile (\<lambda>r. r = None) ls))
          = length (dropWhile (\<lambda>r. r = None) ls)"
    by (metis append_take_drop_id length_append)
  moreover have "length (takeWhile (\<lambda>r. r = None) ls) + length (dropWhile (\<lambda>r. r = None) ls) = length ls"
    by (metis takeWhile_dropWhile_id length_append)
  ultimately show ?thesis
    by (simp add: before_capture_def after_capture_def)
qed

text \<open>
  Claim C8. With \<^verbatim>\<open>max_retries = 2\<close>, one field collection calls \<^verbatim>\<open>listen\<close> at most
  \<^verbatim>\<open>max_retries + 1\<close> times up to and including the first captured text and at most
  \<^verbatim>\<open>max_retries\<close> times after it, a capture absence after the first capture counting as
  one of these calls; so it never calls \<^verbatim>\<open>listen\<close> more than \<^verbatim>\<open>2 * max_retries + 1 = 5\<close>
  times.
\<close>

theorem collector_listen_budget:
  assumes "max_retries self = 2"
  shows "let ls = listens (new_events w (snd (get_input_with_retry self prompt vf ef fname w)))
         in length (before_capture ls) \<le> max_retries self + 1
            \<and> length (after_capture ls) \<le> max_retries self
            \<and> length ls \<le> 2 * max_retries self + 1 \<and> length ls \<le> 5"
proof -
  define ls where "ls = listens (new_events w (snd (get_input_with_retry self prompt vf ef fname w)))"
  have "length (before_capture ls) \<le> 3 \<and> length (after_capture ls) \<le> max_retries self"
    unfolding ls_def by (rule get_input_with_retry_listens)
  then show ?thesis
    using assms before_after_capture_length [of ls]
    unfolding ls_def [symmetric] Let_def by simp
qed

theorem collector_listen_budget_witness:
  "max_retries KYCVoiceBot_init = 2
   \<and> listens (new_events
        \<lparr>pending = [None, None, Some (str ''7''), None, Some (str ''8''), Some (str ''Asha Rao'')], clock = [],
           writable = False, files = Map.empty, trace = []\<rparr>
        (snd (get_input_with_retry KYCVoiceBot_init (str ''May I have your full name please?'')
               validate_name None (str ''name'')
               \<lparr>pending = [None, None, Some (str ''7''), None, Some (str ''8''), Some (str ''Asha Rao'')], clock = [],
                  writable = False, files = Map.empty, trace = []\<rparr>)))
       = [None, None, Some (str ''7''), None, Some (str ''8'')]
   \<and> length (listens (new_events
        \<lparr>pending = [None, None, Some (str ''7''), None, Some (str ''8''), Some (str ''Asha Rao'')], clock = [],
           writable = False, files = Map.empty, trace = []\<rparr>
        (snd (get_input_with_retry KYCVoiceBot_init (str ''May I have your full name please?'')
               validate_name None (str ''name'')
               \<lparr>pending = [None, None, Some (str ''7''), None, Some (str ''8''), Some (str ''Asha Rao'')], clock = [],
                  writable = False, files = Map.empty, trace = []\<rparr>)))) \<le> 5"
proof -
  let ?w = "\<lparr>pending = [None, None, Some (str ''7''), None, Some (str ''8''), Some (str ''Asha Rao'')], clock = [],
              writable = False, files = Map.empty, trace = []\<rparr>"
  let ?ls = "listens (new_events ?w (snd (get_input_with_retry KYCVoiceBot_init
               (str ''May I have your full name please?'') validate_name None (str ''name'') ?w)))"
  have h: "max_retries KYCVoiceBot_init = 2"
    by (simp add: KYCVoiceBot_init_def)
  have e: "?ls = [None, None, Some (str ''7''), None, Some (str ''8'')]"
    by code_simp
  have "length ?ls \<le> 5"
    using collector_listen_budget [OF h, of ?w "str ''May I have your full name please?''"
        validate_name None "str ''name''"]
    unfolding Let_def by (elim conjE)
  with h e show ?thesis by (intro conjI)
qed

section \<open>The consent dialogue\<close>

lemma heard_run_from: "heard (run_from w a) = drop (length (listens a)) (heard w)"
  by (simp add: heard_def run_from_fields drop_map)

lemma heard_next_heard: "heard_next w = (case heard w of [] \<Rightarrow> None | h # hs \<Rightarrow> h)"
  by (simp add: heard_next_def heard_def split: list.splits)

lemma heard_next_speak: "heard_next (run_from w [Speak t]) = heard_next w"
  by (simp add: heard_next_def run_from_fields)

lemma affirmative_py_in:
  "(py_in (str ''yes'') (py_lower r) \<or> py_in (str ''yeah'') (py_lower r) \<or> py_in (str ''sure'') (py_lower r))
     = affirmative r"
  by (simp only: py_in_sublist affirmative_def)

lemma negative_py_in:
  "(py_in (str ''no'') (py_lower r) \<or> py_in (str ''nope'') (py_lower r)) = negative r"
  by (simp only: py_in_sublist negative_def)

lemma consent_retries_Nil:
  "consent_retries self [] w =
     (False, run_from w [Speak (str ''I couldn't understand your response. Verification cannot proceed.'')])"
  by (simp add: speak_run_from)

lemma consent_retries_Cons:
  "consent_retries self (attempt # attempts) w =
     (let h = heard_next w;
          w2 = run_from w [Speak (str ''Please say yes or no.''), Listen h]
      in case h of
           None \<Rightarrow>
             if attempt < max_retries self - 1
             then consent_retries self attempts
                    (run_from w2 [Speak (str ''I didn't hear you. Say yes or no.'')])
             else (False,
                   run_from w2 [Speak (str ''I couldn't get your consent. Verification cannot proceed.'')])
         | Some text \<Rightarrow>
             if affirmative text then (True, w2)
             else if negative text then (False, run_from w2 [Speak decline_ack])
             else consent_retries self attempts w2)"
  unfolding affirmative_py_in [symmetric] negative_py_in [symmetric]
  by (simp add: speak_run_from listen_run_from run_from_run_from heard_next_speak Let_def
      decline_ack_def split: option.splits)

lemma consent_runI:
  "res = (b, run_from w evs) \<Longrightarrow> b = (v = Affirmed) \<Longrightarrow> stores evs = []
     \<Longrightarrow> \<not> list_ex summary_line (spoken evs) \<Longrightarrow> length (listens evs) \<le> n
     \<Longrightarrow> (decline_ack \<in> set (spoken evs)) = (v = Declined)
     \<Longrightarrow> consent_run v n w res"
  unfolding consent_run_def by auto

lemma consent_run_after:
  assumes "consent_run v n (run_from w pre) res"
    and "stores pre = []" and "\<not> list_ex summary_line (spoken pre)"
    and "decline_ack \<notin> set (spoken pre)" and "length (listens pre) + n \<le> k"
  shows "consent_run v k w res"
proof -
  from assms(1) obtain evs where evs: "fst res = (v = Affirmed)"
      "snd res = run_from (run_from w pre) evs" "stores evs = []"
      "\<not> list_ex summary_line (spoken evs)" "length (listens evs) \<le> n"
      "(decline_ack \<in> set (spoken evs)) = (v = Declined)"
    unfolding consent_run_def by blast
  have "snd res = run_from w (pre @ evs)"
    by (simp add: evs(2) run_from_run_from)
  moreover have "stores (pre @ evs) = []"
    by (simp add: stores_append assms(2) evs(3))
  moreover have "\<not> list_ex summary_line (spoken (pre @ evs))"
    using assms(3) evs(4) by (auto simp: spoken_append list_ex_iff)
  moreover have "length (listens (pre @ evs)) \<le> k"
    using assms(5) evs(5) by (simp add: listens_append)
  moreover have "(decline_ack \<in> set (spoken (pre @ evs))) = (v = Declined)"
    using assms(4) evs(6) by (simp add: spoken_append)
  ultimately show ?thesis
    using evs(1) unfolding consent_run_def by blast
qed

lemma retry_verdict_None:
  "heard_next w = None \<Longrightarrow>
     retry_verdict (Suc n) (heard w) = retry_verdict n (drop 1 (heard w))"
  by (cases "heard w") (auto simp: heard_next_heard)

lemma retry_verdict_Some:
  "heard_next w = Some r \<Longrightarrow>
     retry_verdict (Suc n) (heard w) =
       (if affirmative r then Affirmed else if negative r then Declined
        else retry_verdict n (drop 1 (heard w)))"
  by (cases "heard w") (auto simp: heard_next_heard)

lemma consent_retries_run:
  "k \<le> max_retries self \<Longrightarrow>
     consent_run (retry_verdict (max_retries self - k) (heard w)) (max_retries self - k) w
       (consent_retries self [k..<max_retries self] w)"
proof (induction "max_retries self - k" arbitrary: k w)
  case 0
  then have k: "[k..<max_retries self] = []" by simp
  show ?case
    unfolding k consent_retries_Nil
    by (rule consent_runI [where b = False and
          evs = "[Speak (str ''I couldn't understand your response. Verification cannot proceed.'')]"])
       (simp_all add: 0(1) [symmetric] summary_line_def decline_ack_def str_def)
next
  case (Suc n)
  let ?m = "max_retries self"
  from Suc(2) have n: "?m - k = Suc n" and km: "k < ?m" and n': "n = ?m - Suc k"
    and sk: "Suc k \<le> ?m"
    by simp_all
  have upt: "[k..<?m] = k # [Suc k..<?m]"
    using km by (simp add: upt_conv_Cons)
  define h where "h = heard_next w"
  define w2 where "w2 = run_from w [Speak (str ''Please say yes or no.''), Listen h]"
  define w3 where "w3 = run_from w2 [Speak (str ''I didn't hear you. Say yes or no.'')]"
  define w4 where "w4 = run_from w2 [Speak (str ''I couldn't get your consent. Verification cannot proceed.'')]"
  define w5 where "w5 = run_from w2 [Speak decline_ack]"
  have step: "consent_retries self [k..<?m] w =
     (case h of
        None \<Rightarrow> if k < ?m - 1 then consent_retries self [Suc k..<?m] w3 else (False, w4)
      | Some text \<Rightarrow>
          if affirmative text then (True, w2)
          else if negative text then (False, w5)
          else consent_retries self [Suc k..<?m] w2)"
    unfolding upt consent_retries_Cons h_def w2_def w3_def w4_def w5_def Let_def ..
  have IH: "consent_run (retry_verdict n (heard w')) n w' (consent_retries self [Suc k..<?m] w')" for w'
    using Suc(1) [of "Suc k" w'] n' sk by simp
  have hw2: "heard w2 = drop 1 (heard w)"
    by (simp add: w2_def heard_run_from)
  have hw3: "heard w3 = drop 1 (heard w)"
    by (simp add: w3_def w2_def heard_run_from run_from_run_from)
  show ?case
  proof (cases h)
    case None
    then have hn: "heard_next w = None" by (simp add: h_def)
    show ?thesis
    proof (cases "k < ?m - 1")
      case True
      have w3eq: "w3 = run_from w [Speak (str ''Please say yes or no.''), Listen None,
                                   Speak (str ''I didn't hear you. Say yes or no.'')]"
        by (simp add: w3_def w2_def None run_from_run_from)
      have "consent_run (retry_verdict n (drop 1 (heard w))) n w3
              (consent_retries self [Suc k..<?m] w3)"
        using IH [of w3] by (simp only: hw3)
      then have "consent_run (retry_verdict n (drop 1 (heard w))) (Suc n) w
              (consent_retries self [Suc k..<?m] w3)"
        unfolding w3eq
        by (rule consent_run_after) (simp_all add: summary_line_def decline_ack_def str_def)
      then show ?thesis
        using True by (simp add: n step None retry_verdict_None [OF hn])
    next
      case False
      then have n0: "n = 0" using n by simp
      have "consent_run Unresolved (Suc n) w (False, w4)"
        by (rule consent_runI [where b = False and evs = "[Speak (str ''Please say yes or no.''), Listen None,
              Speak (str ''I couldn't get your consent. Verification cannot proceed.'')]"])
           (simp_all add: w4_def w2_def None run_from_run_from summary_line_def decline_ack_def
               str_def)
      then show ?thesis
        using False by (simp add: n step None retry_verdict_None [OF hn] n0)
    qed
  next
    case (Some r)
    then have hs: "heard_next w = Some r" by (simp add: h_def)
    show ?thesis
    proof (cases "affirmative r")
      case True
      have "consent_run Affirmed (Suc n) w (True, w2)"
        by (rule consent_runI [where b = True and
              evs = "[Speak (str ''Please say yes or no.''), Listen (Some r)]"])
           (simp_all add: w2_def Some summary_line_def decline_ack_def str_def)
      then show ?thesis
        by (simp add: n step Some True retry_verdict_Some [OF hs])
    next
      case na: False
      show ?thesis
      proof (cases "negative r")
        case True
        have "consent_run Declined (Suc n) w (False, w5)"
          by (rule consent_runI [where b = False and evs = "[Speak (str ''Please say yes or no.''), Listen (Some r),
                Speak decline_ack]"])
             (simp_all add: w5_def w2_def Some run_from_run_from summary_line_def
                 decline_ack_def str_def)
        then show ?thesis
          by (simp add: n step Some na True retry_verdict_Some [OF hs])
      next
        case False
        have w2eq: "w2 = run_from w [Speak (str ''Please say yes or no.''), Listen (Some r)]"
          by (simp add: w2_def Some)
        have "consent_run (retry_verdict n (drop 1 (heard w))) n w2
                (consent_retries self [Suc k..<?m] w2)"
          using IH [of w2] by (simp only: hw2)
        then have "consent_run (retry_verdict n (drop 1 (heard w))) (Suc n) w
                (consent_retries self [Suc k..<?m] w2)"
          unfolding w2eq
          by (rule consent_run_after) (simp_all add: summary_line_def decline_ack_def str_def)
        then show ?thesis
          by (simp add: n step Some na False retry_verdict_Some [OF hs])
      qed
    qed
  qed
qed

lemma first_capture_Nil: "first_capture n [] = None"
  by (cases n) simp_all

lemma first_capture_None:
  "heard_next w = None \<Longrightarrow> first_capture (Suc n) (heard w) = first_capture n (drop 1 (heard w))"
  by (cases "heard w") (auto simp: heard_next_heard first_capture_Nil)

lemma first_capture_Some:
  "heard_next w = Some r \<Longrightarrow> first_capture (Suc n) (heard w) = Some (r, drop 1 (heard w))"
  by (cases "heard w") (auto simp: heard_next_heard)

lemma check_response_unfold:
  "check_response self r w =
     (if affirmative r then (True, w)
      else if negative r then (False, run_from w [Speak decline_ack])
      else consent_retries self [0..<max_retries self] w)"
  unfolding affirmative_py_in [symmetric] negative_py_in [symmetric]
  by (simp add: check_response_def speak_run_from Let_def decline_ack_def)

lemma check_response_run:
  "consent_run
     (if affirmative r then Affirmed else if negative r then Declined
      else retry_verdict (max_retries self) (heard w))
     (max_retries self) w (check_response self r w)"
proof (cases "affirmative r")
  case True
  have "consent_run Affirmed (max_retries self) w (True, w)"
    by (rule consent_runI [where b = True and evs = "[]"]) (simp_all add: run_from_Nil)
  then show ?thesis by (simp add: check_response_unfold True)
next
  case na: False
  show ?thesis
  proof (cases "negative r")
    case True
    have "consent_run Declined (max_retries self) w (False, run_from w [Speak decline_ack])"
      by (rule consent_runI [where b = False and evs = "[Speak decline_ack]"])
         (simp_all add: summary_line_def decline_ack_def str_def)
    then show ?thesis by (simp add: check_response_unfold na True)
  next
    case False
    show ?thesis
      using consent_retries_run [of 0 self w] by (simp add: check_response_unfold na False)
  qed
qed

lemma get_consent_unfold:
  "get_consent self w =
     (let h1 = heard_next (run_from w
                      [Speak (str ''Do you consent to this KYC verification? Please say yes or no.'')]);
          w1 = run_from w [Speak (str ''Do you consent to this KYC verification? Please say yes or no.''),
                           Listen h1]
      in case h1 of
           Some t \<Rightarrow> check_response self t w1
         | None \<Rightarrow>
             (let h2 = heard_next (run_from w1
                              [Speak (str ''I didn't catch that. Do you consent? Say yes or no.'')]);
                  w2 = run_from w1 [Speak (str ''I didn't catch that. Do you consent? Say yes or no.''),
                                    Listen h2]
              in case h2 of
                   Some t \<Rightarrow> check_response self t w2
                 | None \<Rightarrow>
                     (let h3 = heard_next (run_from w2 [Speak (str ''Please say yes or no for consent.'')]);
                          w3 = run_from w2 [Speak (str ''Please say yes or no for consent.''), Listen h3]
                      in case h3 of
                           Some t \<Rightarrow> check_response self t w3
                         | None \<Rightarrow>
                             (False,
                              run_from w3
                                [Speak (str ''I couldn't get your consent. Verification cannot proceed.'')]))))"
  by (simp add: get_consent_def speak_run_from listen_run_from run_from_run_from
      Let_def split: option.splits)

lemma get_consent_run:
  "consent_run (consent_verdict (max_retries self) (heard w)) (3 + max_retries self) w
     (get_consent self w)"
proof -
  let ?m = "max_retries self"
  define q1 where "q1 = str ''Do you consent to this KYC verification? Please say yes or no.''"
  define q2 where "q2 = str ''I didn't catch that. Do you consent? Say yes or no.''"
  define q3 where "q3 = str ''Please say yes or no for consent.''"
  define q4 where "q4 = str ''I couldn't get your consent. Verification cannot proceed.''"
  define h1 where "h1 = heard_next (run_from w [Speak q1])"
  define w1 where "w1 = run_from w [Speak q1, Listen h1]"
  define h2 where "h2 = heard_next (run_from w1 [Speak q2])"
  define w2 where "w2 = run_from w1 [Speak q2, Listen h2]"
  define h3 where "h3 = heard_next (run_from w2 [Speak q3])"
  define w3 where "w3 = run_from w2 [Speak q3, Listen h3]"
  have step: "get_consent self w =
     (case h1 of Some t \<Rightarrow> check_response self t w1
      | None \<Rightarrow> (case h2 of Some t \<Rightarrow> check_response self t w2
         | None \<Rightarrow> (case h3 of Some t \<Rightarrow> check_response self t w3
            | None \<Rightarrow> (False, run_from w3 [Speak q4]))))"
    unfolding get_consent_unfold q1_def q2_def q3_def q4_def h1_def w1_def h2_def w2_def
      h3_def w3_def Let_def ..
  have nq: "\<not> summary_line q1" "\<not> summary_line q2" "\<not> summary_line q3" "\<not> summary_line q4"
    "q1 \<noteq> decline_ack" "q2 \<noteq> decline_ack" "q3 \<noteq> decline_ack" "q4 \<noteq> decline_ack"
    "decline_ack \<noteq> q1" "decline_ack \<noteq> q2" "decline_ack \<noteq> q3" "decline_ack \<noteq> q4"
    by (simp_all add: q1_def q2_def q3_def q4_def summary_line_def decline_ack_def str_def)
  have hw1: "heard w1 = drop 1 (heard w)"
    by (simp add: w1_def heard_run_from)
  have hw2: "heard w2 = drop 1 (heard w1)"
    by (simp add: w2_def heard_run_from)
  have hw3: "heard w3 = drop 1 (heard w2)"
    by (simp add: w3_def heard_run_from)
  define verdict_of where "verdict_of r hs =
     (if affirmative r then Affirmed else if negative r then Declined else retry_verdict ?m hs)"
    for r hs
  have cr: "consent_run (verdict_of r (heard w')) ?m w' (check_response self r w')" for r w'
    unfolding verdict_of_def by (rule check_response_run)
  show ?thesis
  proof (cases h1)
    case (Some r)
    then have a: "heard_next w = Some r" by (simp add: h1_def heard_next_speak)
    have v: "consent_verdict ?m (heard w) = verdict_of r (heard w1)"
      by (simp add: consent_verdict_def numeral_3_eq_3 first_capture_Some [OF a] hw1 verdict_of_def)
    have w1eq: "w1 = run_from w [Speak q1, Listen (Some r)]"
      by (simp add: w1_def Some)
    have "consent_run (verdict_of r (heard w1)) (3 + ?m) w (check_response self r w1)"
      using cr [of r w1] unfolding w1eq
      by (rule consent_run_after) (simp_all add: nq)
    then show ?thesis by (simp add: step Some v)
  next
    case n1: None
    then have a1: "heard_next w = None" by (simp add: h1_def heard_next_speak)
    have w1eq: "w1 = run_from w [Speak q1, Listen None]"
      by (simp add: w1_def n1)
    show ?thesis
    proof (cases h2)
      case (Some r)
      then have a: "heard_next w1 = Some r" by (simp add: h2_def heard_next_speak)
      have "first_capture 3 (heard w) = first_capture 2 (heard w1)"
        using first_capture_None [OF a1, of 2] by (simp add: numeral_3_eq_3 numeral_2_eq_2 hw1)
      then have v: "consent_verdict ?m (heard w) = verdict_of r (heard w2)"
        using first_capture_Some [OF a, of 1]
        by (simp add: consent_verdict_def numeral_2_eq_2 hw2 verdict_of_def)
      have w2eq: "w2 = run_from w [Speak q1, Listen None, Speak q2, Listen (Some r)]"
        by (simp add: w2_def w1eq Some run_from_run_from)
      have "consent_run (verdict_of r (heard w2)) (3 + ?m) w (check_response self r w2)"
        using cr [of r w2] unfolding w2eq
        by (rule consent_run_after) (simp_all add: nq)
      then show ?thesis by (simp add: step n1 Some v)
    next
      case n2: None
      then have a2: "heard_next w1 = None" by (simp add: h2_def heard_next_speak)
      have w2eq: "w2 = run_from w [Speak q1, Listen None, Speak q2, Listen None]"
        by (simp add: w2_def w1eq n2 run_from_run_from)
      have f2: "first_capture 3 (heard w) = first_capture 1 (heard w2)"
        using first_capture_None [OF a1, of 2] first_capture_None [OF a2, of 1]
        by (simp add: numeral_3_eq_3 numeral_2_eq_2 hw1 hw2)
      show ?thesis
      proof (cases h3)
        case (Some r)
        then have a: "heard_next w2 = Some r" by (simp add: h3_def heard_next_speak)
        have v: "consent_verdict ?m (heard w) = verdict_of r (heard w3)"
          using first_capture_Some [OF a, of 0]
          by (simp add: consent_verdict_def f2 hw3 verdict_of_def)
        have w3eq: "w3 = run_from w [Speak q1, Listen None, Speak q2, Listen None, Speak q3,
                                     Listen (Some r)]"
          by (simp add: w3_def w2eq Some run_from_run_from)
        have "consent_run (verdict_of r (heard w3)) (3 + ?m) w (check_response self r w3)"
          using cr [of r w3] unfolding w3eq
          by (rule consent_run_after) (simp_all add: nq)
        then show ?thesis by (simp add: step n1 n2 Some v)
      next
        case n3: None
        then have a3: "heard_next w2 = None" by (simp add: h3_def heard_next_speak)
        have v: "consent_verdict ?m (heard w) = Unresolved"
          using first_capture_None [OF a3, of 0] by (simp add: consent_verdict_def f2)
        have "consent_run Unresolved (3 + ?m) w (False, run_from w3 [Speak q4])"
          by (rule consent_runI [where b = False and
                evs = "[Speak q1, Listen None, Speak q2, Listen None, Speak q3, Listen None,
                        Speak q4]"])
             (simp_all add: w3_def w2eq n3 run_from_run_from nq)
        then show ?thesis by (simp add: step n1 n2 n3 v)
      qed
    qed
  qed
qed

lemma consent_run_result:
  assumes "consent_run v n w res"
  shows "fst res = (v = Affirmed)"
    and "(decline_ack \<in> set (spoken (new_events w (snd res)))) = (v = Declined)"
    and "length (listens (new_events w (snd res))) \<le> n"
    and "dialogue n w (snd res)"
proof -
  from assms obtain evs where evs: "fst res = (v = Affirmed)" "snd res = run_from w evs"
      "stores evs = []" "\<not> list_ex summary_line (spoken evs)" "length (listens evs) \<le> n"
      "(decline_ack \<in> set (spoken evs)) = (v = Declined)"
    unfolding consent_run_def by blast
  show "fst res = (v = Affirmed)" by (rule evs(1))
  show "(decline_ack \<in> set (spoken (new_events w (snd res)))) = (v = Declined)"
    by (simp add: evs(2) new_events_run_from evs(6))
  show "length (listens (new_events w (snd res))) \<le> n"
    by (simp add: evs(2) new_events_run_from evs(5))
  show "dialogue n w (snd res)"
    unfolding dialogue_def using evs by blast
qed

lemma first_capture_nones:
  "length nones < n \<Longrightarrow> \<forall>x \<in> set nones. x = None
     \<Longrightarrow> first_capture n (nones @ Some r # hs) = Some (r, hs)"
proof (induction nones arbitrary: n)
  case Nil
  then show ?case by (cases n) simp_all
next
  case (Cons x nones)
  then show ?case by (cases n) simp_all
qed

text \<open>
  Claim C7, as the code has it. The result of \<^verbatim>\<open>get_consent\<close> is the verdict of the
  specification's classification read with the affirmative keywords first: a captured
  response containing \<^verbatim>\<open>yes\<close>, \<^verbatim>\<open>yeah\<close> or \<^verbatim>\<open>sure\<close> gives true; one containing
  \<^verbatim>\<open>no\<close> or \<^verbatim>\<open>nope\<close> and none of the affirmative keywords gives false with the decline
  acknowledgment spoken; any other response, like a capture absence, uses up one of the
  \<^verbatim>\<open>max_retries\<close> retries, and with the retries used up the result is false.
\<close>

theorem consent_classification:
  "fst (get_consent self w) = (consent_verdict (max_retries self) (heard w) = Affirmed)
   \<and> (decline_ack \<in> set (spoken (new_events w (snd (get_consent self w)))))
       = (consent_verdict (max_retries self) (heard w) = Declined)
   \<and> (heard w = Some r # hs \<and> affirmative r \<longrightarrow> fst (get_consent self w))
   \<and> (heard w = Some r # hs \<and> \<not> affirmative r \<and> negative r \<longrightarrow>
         \<not> fst (get_consent self w)
         \<and> decline_ack \<in> set (spoken (new_events w (snd (get_consent self w)))))
   \<and> (heard w = Some r # hs \<and> \<not> affirmative r \<and> \<not> negative r \<longrightarrow>
         fst (get_consent self w) = (retry_verdict (max_retries self) hs = Affirmed))
   \<and> retry_verdict 0 hs = Unresolved"
proof -
  note run = consent_run_result [OF get_consent_run [of self w]]
  have v: "heard w = Some r # hs \<Longrightarrow> consent_verdict (max_retries self) (heard w) =
      (if affirmative r then Affirmed else if negative r then Declined
       else retry_verdict (max_retries self) hs)"
    by (simp add: consent_verdict_def numeral_3_eq_3)
  show ?thesis
    using run(1) run(2) v by auto
qed

theorem consent_classification_witness:
  "heard \<lparr>pending = [Some (str ''Sure thing'')], clock = [], writable = False, files = Map.empty,
           trace = []\<rparr> = [Some (str ''Sure thing'')]
   \<and> affirmative (str ''Sure thing'')
   \<and> fst (get_consent KYCVoiceBot_init
         \<lparr>pending = [Some (str ''Sure thing'')], clock = [], writable = False, files = Map.empty,
            trace = []\<rparr>)
   \<and> heard \<lparr>pending = [Some (str ''no thanks'')], clock = [], writable = False, files = Map.empty,
             trace = []\<rparr> = [Some (str ''no thanks'')]
   \<and> \<not> affirmative (str ''no thanks'') \<and> negative (str ''no thanks'')
   \<and> \<not> fst (get_consent KYCVoiceBot_init
           \<lparr>pending = [Some (str ''no thanks'')], clock = [], writable = False, files = Map.empty,
              trace = []\<rparr>)
   \<and> heard \<lparr>pending = [Some (str ''maybe''), None], clock = [], writable = False, files = Map.empty,
             trace = []\<rparr> = [Some (str ''maybe''), None]
   \<and> \<not> affirmative (str ''maybe'') \<and> \<not> negative (str ''maybe'')
   \<and> retry_verdict (max_retries KYCVoiceBot_init) [None] \<noteq> Affirmed
   \<and> \<not> fst (get_consent KYCVoiceBot_init
           \<lparr>pending = [Some (str ''maybe''), None], clock = [], writable = False, files = Map.empty,
              trace = []\<rparr>)"
proof -
  let ?w1 = "\<lparr>pending = [Some (str ''Sure thing'')], clock = [], writable = False, files = Map.empty,
               trace = []\<rparr>"
  let ?w2 = "\<lparr>pending = [Some (str ''no thanks'')], clock = [], writable = False, files = Map.empty,
               trace = []\<rparr>"
  let ?w3 = "\<lparr>pending = [Some (str ''maybe''), None], clock = [], writable = False, files = Map.empty,
               trace = []\<rparr>"
  have h1: "heard ?w1 = [Some (str ''Sure thing'')]" by code_simp
  have a1: "affirmative (str ''Sure thing'')" by code_simp
  have h2: "heard ?w2 = [Some (str ''no thanks'')]" by code_simp
  have a2: "\<not> affirmative (str ''no thanks'')" by code_simp
  have n2: "negative (str ''no thanks'')" by code_simp
  have h3: "heard ?w3 = [Some (str ''maybe''), None]" by code_simp
  have a3: "\<not> affirmative (str ''maybe'')" by code_simp
  have n3: "\<not> negative (str ''maybe'')" by code_simp
  have r3: "retry_verdict (max_retries KYCVoiceBot_init) [None] \<noteq> Affirmed" by code_simp
  have c1: "fst (get_consent KYCVoiceBot_init ?w1)"
    using consent_classification [of KYCVoiceBot_init ?w1 "str ''Sure thing''" "[]"] h1 a1 by blast
  have c2: "\<not> fst (get_consent KYCVoiceBot_init ?w2)"
    using consent_classification [of KYCVoiceBot_init ?w2 "str ''no thanks''" "[]"] h2 a2 n2 by blast
  have c3: "\<not> fst (get_consent KYCVoiceBot_init ?w3)"
    using consent_classification [of KYCVoiceBot_init ?w3 "str ''maybe''" "[None]"] h3 a3 n3 r3
    by blast
  from h1 a1 c1 h2 a2 n2 c2 h3 a3 n3 r3 c3 show ?thesis by (intro conjI)
qed

theorem consent_no_substring_counterexample:
  "py_in (str ''no'') (py_lower (str ''I know, yes''))
   \<and> fst (get_consent KYCVoiceBot_init
         \<lparr>pending = [Some (str ''I know, yes'')], clock = [], writable = False, files = Map.empty,
            trace = []\<rparr>)
   \<and> Speak (str ''You have declined consent. Verification cannot proceed.'')
       \<notin> set (trace (snd (get_consent KYCVoiceBot_init
             \<lparr>pending = [Some (str ''I know, yes'')], clock = [], writable = False, files = Map.empty,
                trace = []\<rparr>)))"
  by code_simp

text \<open>
  Claim C10. The affirmative keywords are tested first: a captured response that
  contains an affirmative and a negative keyword gives true, and the decline is not
  acknowledged; this holds for the response captured by one of the three first calls of
  \<^verbatim>\<open>listen\<close> and for a response captured in a validation retry. The example
  \<^verbatim>\<open>yes, not a problem\<close> is such a response.
\<close>

theorem affirmative_takes_priority:
  "(heard w = nones @ Some r # hs \<and> length nones \<le> 2 \<and> (\<forall>x \<in> set nones. x = None)
      \<and> affirmative r \<and> negative r \<longrightarrow>
      fst (get_consent self w)
      \<and> decline_ack \<notin> set (spoken (new_events w (snd (get_consent self w)))))
   \<and> (k < max_retries self \<and> heard w = Some r # hs \<and> affirmative r \<and> negative r \<longrightarrow>
      fst (consent_retries self [k..<max_retries self] w)
      \<and> decline_ack \<notin> set (spoken (new_events w
            (snd (consent_retries self [k..<max_retries self] w)))))
   \<and> affirmative (str ''yes, not a problem'') \<and> negative (str ''yes, not a problem'')"
proof -
  have first: "fst (get_consent self w)
      \<and> decline_ack \<notin> set (spoken (new_events w (snd (get_consent self w))))"
    if "heard w = nones @ Some r # hs" "length nones \<le> 2" "\<forall>x \<in> set nones. x = None"
      "affirmative r"
  proof -
    have "first_capture 3 (heard w) = Some (r, hs)"
      using first_capture_nones [of nones 3 r hs] that by simp
    then have "consent_verdict (max_retries self) (heard w) = Affirmed"
      using that(4) by (simp add: consent_verdict_def)
    then show ?thesis
      using consent_run_result(1,2) [OF get_consent_run [of self w]] by simp
  qed
  have retry: "fst (consent_retries self [k..<max_retries self] w)
      \<and> decline_ack \<notin> set (spoken (new_events w
            (snd (consent_retries self [k..<max_retries self] w))))"
    if "k < max_retries self" "heard w = Some r # hs" "affirmative r"
  proof -
    from that(1) obtain n where n: "max_retries self - k = Suc n"
      by (metis Suc_diff_Suc)
    have "retry_verdict (max_retries self - k) (heard w) = Affirmed"
      by (simp add: n that(2) that(3))
    then show ?thesis
      using consent_run_result(1,2) [OF consent_retries_run [of k self w]] that(1) by simp
  qed
  have "affirmative (str ''yes, not a problem'')" by code_simp
  moreover have "negative (str ''yes, not a problem'')" by code_simp
  ultimately show ?thesis
    using first retry by blast
qed

theorem affirmative_takes_priority_witness:
  "heard \<lparr>pending = [None, Some (str '' Yes, no problem '')], clock = [], writable = False,
           files = Map.empty, trace = []\<rparr> = [None] @ Some (str ''Yes, no problem'') # []
   \<and> affirmative (str ''Yes, no problem'') \<and> negative (str ''Yes, no problem'')
   \<and> fst (get_consent KYCVoiceBot_init
         \<lparr>pending = [None, Some (str '' Yes, no problem '')], clock = [], writable = False,
            files = Map.empty, trace = []\<rparr>)
   \<and> 1 < max_retries KYCVoiceBot_init
   \<and> fst (consent_retries KYCVoiceBot_init [1..<max_retries KYCVoiceBot_init]
         \<lparr>pending = [Some (str ''Yes, no problem'')], clock = [], writable = False,
            files = Map.empty, trace = []\<rparr>)"
proof -
  let ?w1 = "\<lparr>pending = [None, Some (str '' Yes, no problem '')], clock = [], writable = False,
               files = Map.empty, trace = []\<rparr>"
  let ?w2 = "\<lparr>pending = [Some (str ''Yes, no problem'')], clock = [], writable = False,
               files = Map.empty, trace = []\<rparr>"
  have h1: "heard ?w1 = [None] @ Some (str ''Yes, no problem'') # []" by code_simp
  have h2: "heard ?w2 = Some (str ''Yes, no problem'') # []" by code_simp
  have a: "affirmative (str ''Yes, no problem'')" by code_simp
  have n: "negative (str ''Yes, no problem'')" by code_simp
  have l: "length [None :: pystr option] \<le> 2" by simp
  have s: "\<forall>x \<in> set [None :: pystr option]. x = None" by simp
  have k: "1 < max_retries KYCVoiceBot_init" by (simp add: KYCVoiceBot_init_def)
  have c1: "fst (get_consent KYCVoiceBot_init ?w1)"
    using affirmative_takes_priority [of ?w1 "[None]" "str ''Yes, no problem''" "[]"
        KYCVoiceBot_init 1] h1 a n l s
    by blast
  have c2: "fst (consent_retries KYCVoiceBot_init [1..<max_retries KYCVoiceBot_init] ?w2)"
    using affirmative_takes_priority [of ?w2 "[]" "str ''Yes, no problem''" "[]"
        KYCVoiceBot_init 1] h2 a n k
    by blast
  from h1 a n c1 k c2 show ?thesis by (intro conjI)
qed

section \<open>Values that pass validation\<close>

lemma upper_char_table_None:
  "a \<notin> set (ascii_lowercase @ latin1_lowercase) \<Longrightarrow>
   map_of (zip (ascii_lowercase @ latin1_lowercase) (ascii_uppercase @ latin1_uppercase)) a = None"
proof -
  assume "a \<notin> set (ascii_lowercase @ latin1_lowercase)"
  moreover have "map fst (zip (ascii_lowercase @ latin1_lowercase)
        (ascii_uppercase @ latin1_uppercase)) = ascii_lowercase @ latin1_lowercase"
    by code_simp
  ultimately show ?thesis
    by (metis map_of_eq_None_iff set_map)
qed

lemma upper_char_table_Some:
  "map_of (zip (ascii_lowercase @ latin1_lowercase) (ascii_uppercase @ latin1_uppercase)) a = Some u
   \<Longrightarrow> u \<in> set (ascii_uppercase @ latin1_uppercase)"
  by (metis map_of_SomeD set_zip_rightD)

lemma uppercase_plain:
  "list_all (\<lambda>u. u \<notin> set (ascii_lowercase @ latin1_lowercase) \<and> u \<noteq> CHR 0xDF \<and> u \<noteq> CHR 0xB5
      \<and> u \<noteq> CHR 0xFF \<and> u \<noteq> CHR '' '') (ascii_uppercase @ latin1_uppercase)"
  by code_simp

lemma upper_char_other:
  assumes "a \<notin> set (ascii_lowercase @ latin1_lowercase)"
    and "a \<noteq> CHR 0xDF" and "a \<noteq> CHR 0xB5" and "a \<noteq> CHR 0xFF"
  shows "upper_char (Latin1 a) = [Latin1 a]"
  using assms upper_char_table_None [of a] by (simp add: upper_char_def)

lemma upper_char_uppercase:
  assumes "u \<in> set (ascii_uppercase @ latin1_uppercase)"
  shows "upper_char (Latin1 u) = [Latin1 u]" and "u \<noteq> CHR '' ''"
proof -
  from assms uppercase_plain
  have u: "u \<notin> set (ascii_lowercase @ latin1_lowercase) \<and> u \<noteq> CHR 0xDF \<and> u \<noteq> CHR 0xB5
      \<and> u \<noteq> CHR 0xFF \<and> u \<noteq> CHR '' ''"
    unfolding list_all_iff by blast
  then show "upper_char (Latin1 u) = [Latin1 u]" by (simp add: upper_char_other)
  from u show "u \<noteq> CHR '' ''" by simp
qed

lemma upper_char_special:
  "py_upper (upper_char (Latin1 (CHR 0xDF))) = upper_char (Latin1 (CHR 0xDF))"
  "py_upper (upper_char (Latin1 (CHR 0xB5))) = upper_char (Latin1 (CHR 0xB5))"
  "py_upper (upper_char (Latin1 (CHR 0xFF))) = upper_char (Latin1 (CHR 0xFF))"
  "py_upper (upper_char U039C) = upper_char U039C"
  "py_upper (upper_char U03BC) = upper_char U03BC"
  "py_upper (upper_char U0178) = upper_char U0178"
  "Latin1 CHR '' '' \<notin> set (upper_char (Latin1 (CHR 0xDF)))"
  "Latin1 CHR '' '' \<notin> set (upper_char (Latin1 (CHR 0xB5)))"
  "Latin1 CHR '' '' \<notin> set (upper_char (Latin1 (CHR 0xFF)))"
  "Latin1 CHR '' '' \<notin> set (upper_char U039C)"
  "Latin1 CHR '' '' \<notin> set (upper_char U03BC)"
  "Latin1 CHR '' '' \<notin> set (upper_char U0178)"
  "upper_char (Latin1 CHR '' '') = [Latin1 CHR '' '']"
  by code_simp+

lemma upper_char_cases:
  obtains (special) "c \<in> {Latin1 (CHR 0xDF), Latin1 (CHR 0xB5), Latin1 (CHR 0xFF), U039C, U03BC, U0178}"
  | (lower) a u where "c = Latin1 a" and "upper_char c = [Latin1 u]"
      and "u \<in> set (ascii_uppercase @ latin1_uppercase)"
  | (other) "upper_char c = [c]"
proof (cases c)
  case (Latin1 a)
  show ?thesis
  proof (cases "a = CHR 0xDF \<or> a = CHR 0xB5 \<or> a = CHR 0xFF")
    case True
    with Latin1 show ?thesis by (auto intro: special)
  next
    case False
    show ?thesis
    proof (cases "map_of (zip (ascii_lowercase @ latin1_lowercase)
          (ascii_uppercase @ latin1_uppercase)) a")
      case None
      with False Latin1 have "upper_char c = [c]" by (simp add: upper_char_def)
      then show ?thesis by (auto intro: other)
    next
      case (Some u)
      with False Latin1 have "upper_char c = [Latin1 u]" by (simp add: upper_char_def)
      with Latin1 Some show ?thesis by (auto intro: lower dest: upper_char_table_Some)
    qed
  qed
qed (auto intro: special)

lemma py_upper_upper_char: "py_upper (upper_char c) = upper_char c"
proof (cases c rule: upper_char_cases)
  case special
  then show ?thesis using upper_char_special(1-6) by auto
next
  case (lower a u)
  then show ?thesis by (simp add: py_upper_def upper_char_uppercase(1))
next
  case other
  then show ?thesis by (simp add: py_upper_def)
qed

lemma upper_char_no_space:
  "c \<noteq> Latin1 CHR '' '' \<Longrightarrow> Latin1 CHR '' '' \<notin> set (upper_char c)"
proof (cases c rule: upper_char_cases)
  case special
  then show ?thesis using upper_char_special(7-12) by auto
next
  case (lower a u)
  then show ?thesis using upper_char_uppercase(2) [of u] by auto
next
  case other
  assume "c \<noteq> Latin1 CHR '' ''"
  with other show ?thesis by simp
qed

lemma py_upper_append: "py_upper (s @ t) = py_upper s @ py_upper t"
  by (simp add: py_upper_def)

lemma py_upper_idem: "py_upper (py_upper s) = py_upper s"
proof (induction s)
  case Nil
  show ?case by (simp add: py_upper_def)
next
  case (Cons c s)
  have "py_upper (c # s) = upper_char c @ py_upper s" by (simp add: py_upper_def)
  then show ?case by (simp add: py_upper_append py_upper_upper_char Cons.IH)
qed

lemma remove_spaces_py_upper: "remove_spaces (py_upper s) = py_upper (remove_spaces s)"
proof (induction s)
  case Nil
  show ?case by (simp add: py_upper_def remove_spaces_def)
next
  case (Cons c s)
  show ?case
  proof (cases "c = Latin1 CHR '' ''")
    case True
    then show ?thesis
      using Cons.IH by (simp add: py_upper_def remove_spaces_def upper_char_special(13))
  next
    case False
    then have "filter (\<lambda>x. x \<noteq> Latin1 CHR '' '') (upper_char c) = upper_char c"
      using upper_char_no_space [of c] by (simp add: filter_id_conv) metis
    with False show ?thesis
      using Cons.IH by (simp add: py_upper_def remove_spaces_def)
  qed
qed

lemma remove_spaces_idem: "remove_spaces (remove_spaces s) = remove_spaces s"
  by (simp add: remove_spaces_def)

lemma extract_pan_fixed: "py_upper (remove_spaces (extract_pan t)) = extract_pan t"
  by (simp add: extract_pan_def remove_spaces_py_upper remove_spaces_idem py_upper_idem)

lemma valid_pan_extracted: "validate_pan (extract_pan t) \<Longrightarrow> five_four_one (extract_pan t)"
  by (simp add: validate_pan_five_four_one extract_pan_fixed)

lemma valid_phone_extracted:
  "validate_phone (extract_phone t) \<Longrightarrow> ten_digits (extract_phone t)"
proof -
  assume v: "validate_phone (extract_phone t)"
  have f: "filter is_digit_09 (extract_phone t) = extract_phone t"
    using re_sub_non_digits_take [of 10 t] by (simp add: extract_phone_eq re_sub_non_digits_def)
  from v have "length (filter is_digit_09 (extract_phone t)) = 10"
    by (simp only: validate_phone_iff)
  then have "length (extract_phone t) = 10" by (simp only: f)
  moreover have "list_all is_digit_09 (extract_phone t)"
    by (subst f [symmetric]) (simp add: list_all_iff)
  ultimately show ?thesis by (simp add: ten_digits_def)
qed

lemma validate_name_nonempty: "validate_name n \<Longrightarrow> n \<noteq> []"
  by (auto simp: validate_name_def)

lemma validate_phone_nonempty: "validate_phone p \<Longrightarrow> p \<noteq> []"
  by (auto simp: validate_phone_iff)

lemma validate_pan_nonempty: "validate_pan p \<Longrightarrow> p \<noteq> []"
  by (auto simp: validate_pan_def Let_def py_upper_def remove_spaces_def)

section \<open>The shape of a session\<close>

lemma get_input_with_retry_dialogue:
  assumes "\<not> summary_line prompt"
  shows "dialogue (3 + max_retries self) w (snd (get_input_with_retry self prompt vf ef fname w))"
proof -
  define m1 where "m1 = str ''I didn't catch that. Please say it again.''"
  define m2 where "m2 = str ''I'm still having trouble hearing you. Let's try one more time.''"
  define m3 where "m3 = str ''I'm sorry, I couldn't hear your '' @ fname @ str ''.''"
  define h1 where "h1 = heard_next (run_from w [Speak prompt])"
  define w1 where "w1 = run_from w [Speak prompt, Listen h1]"
  define h2 where "h2 = heard_next (run_from w1 [Speak m1])"
  define w2 where "w2 = run_from w1 [Speak m1, Listen h2]"
  define h3 where "h3 = heard_next (run_from w2 [Speak m2])"
  define w3 where "w3 = run_from w2 [Speak m2, Listen h3]"
  define w4 where "w4 = run_from w3 [Speak m3]"
  have step: "get_input_with_retry self prompt vf ef fname w =
     (case h1 of Some t \<Rightarrow> validate_captured self vf ef fname t w1
      | None \<Rightarrow> (case h2 of Some t \<Rightarrow> validate_captured self vf ef fname t w2
         | None \<Rightarrow> (case h3 of Some t \<Rightarrow> validate_captured self vf ef fname t w3
            | None \<Rightarrow> (None, w4))))"
    unfolding get_input_with_retry_unfold m1_def m2_def m3_def h1_def w1_def h2_def w2_def
      h3_def w3_def w4_def Let_def ..
  have nm: "\<not> summary_line m1" "\<not> summary_line m2" "\<not> summary_line m3"
    by (simp_all add: m1_def m2_def m3_def summary_line_def str_def)
  have d1: "dialogue 1 w w1"
    unfolding w1_def using assms dialogue_run_from [of "[Speak prompt, Listen h1]" 1 w] by simp
  have d2: "dialogue 2 w w2"
    using dialogue_trans [OF d1 dialogue_run_from [of "[Speak m1, Listen h2]" 1 w1]] nm
    by (simp add: w2_def numeral_2_eq_2)
  have d3: "dialogue 3 w w3"
    using dialogue_trans [OF d2 dialogue_run_from [of "[Speak m2, Listen h3]" 1 w2]] nm
    by (simp add: w3_def)
  have d4: "dialogue 3 w w4"
    using dialogue_trans [OF d3 dialogue_run_from [of "[Speak m3]" 0 w3]] nm
    by (simp add: w4_def)
  have v: "dialogue (3 + max_retries self) w (snd (validate_captured self vf ef fname t w'))"
    if "dialogue n w w'" "n \<le> 3" for n w' t
    using dialogue_trans [OF that(1) validate_captured_dialogue [of self w' vf ef fname t]] that(2)
    by (auto intro: dialogue_mono)
  have v4: "dialogue (3 + max_retries self) w w4"
    using d4 by (auto intro: dialogue_mono)
  show ?thesis
    unfolding step using v [OF d1] v [OF d2] v [OF d3] v4
    by (simp split: option.splits)
qed

lemma dialogueE:
  assumes "dialogue n w w'"
  obtains evs where "w' = run_from w evs" "stores evs = []"
    "\<not> list_ex summary_line (spoken evs)" "length (listens evs) \<le> n"
  using assms unfolding dialogue_def by blast

lemma replay_no_stores: "stores a = [] \<Longrightarrow> replay a d = d"
  by (simp add: replay_def)

lemma session_part_abort:
  assumes "dialogue n w w1" and "\<not> summary_line t"
  shows "session_part ks self w (False, self, run_from w1 [Speak t])"
proof -
  from assms(1) obtain evs where evs: "w1 = run_from w evs" "stores evs = []"
      "\<not> list_ex summary_line (spoken evs)"
    by (rule dialogueE)
  have "run_from w1 [Speak t] = run_from w (evs @ [Speak t])"
    by (simp add: evs(1) run_from_run_from)
  moreover have "stores (evs @ [Speak t]) = []"
    by (simp add: stores_append evs(2))
  moreover have "\<not> list_ex summary_line (spoken (evs @ [Speak t]))"
    using evs(3) assms(2) by (simp add: spoken_append)
  ultimately show ?thesis
    unfolding session_part_def
    by (intro exI [of _ "evs @ [Speak t]"]) (simp add: replay_no_stores)
qed

lemma session_part_store:
  assumes d: "dialogue n w w1"
    and ok: "value_ok (clock w) (k, v)" and k: "k \<noteq> Timestamp"
    and self': "kyc_data self' = set_field (kyc_data self) (k, v)"
      "max_retries self' = max_retries self"
    and rest: "session_part ks self' (run_from w1 [Store k v]) res"
  shows "session_part (k # ks) self w res"
proof -
  from d obtain a where a: "w1 = run_from w a" "stores a = []"
      "\<not> list_ex summary_line (spoken a)"
    by (rule dialogueE)
  let ?w2 = "run_from w1 [Store k v]"
  have w2: "?w2 = run_from w (a @ [Store k v])"
    by (simp add: a(1) run_from_run_from)
  from rest obtain b where b: "snd (snd res) = run_from ?w2 b"
      "kyc_data (fst (snd res)) = replay b (kyc_data self')"
      "max_retries (fst (snd res)) = max_retries self'"
      "prefix (map fst (stores b)) ks"
      "list_all (value_ok (clock ?w2)) (stores b)"
      "if fst res then map fst (stores b) = ks
       else Timestamp \<notin> set (map fst (stores b)) \<and> \<not> list_ex summary_line (spoken b)"
    unfolding session_part_def by blast
  let ?evs = "a @ Store k v # b"
  have st: "stores ?evs = (k, v) # stores b"
    by (simp add: stores_append a(2))
  have sp: "spoken ?evs = spoken a @ spoken b"
    by (simp add: spoken_append)
  have 1: "snd (snd res) = run_from w ?evs"
    by (simp add: b(1) w2 run_from_run_from)
  have 2: "kyc_data (fst (snd res)) = replay ?evs (kyc_data self)"
    by (simp only: b(2) self'(1) replay_def st foldl_Cons)
  have 3: "max_retries (fst (snd res)) = max_retries self"
    by (simp add: b(3) self'(2))
  have 4: "prefix (map fst (stores ?evs)) (k # ks)"
    using b(4) by (simp add: st)
  have 5: "list_all (value_ok (clock w)) (stores ?evs)"
    using b(5) ok by (simp add: st run_from_fields a(1))
  have 6: "if fst res then map fst (stores ?evs) = k # ks
       else Timestamp \<notin> set (map fst (stores ?evs)) \<and> \<not> list_ex summary_line (spoken ?evs)"
    using b(6) a(3) k by (auto simp: st sp list_ex_iff)
  show ?thesis
    unfolding session_part_def using 1 2 3 4 5 6 by blast
qed

lemma consent_and_summary_unfold:
  "consent_and_summary self w =
     (let c = fst (get_consent self w); w1 = snd (get_consent self w);
          d1 = (kyc_data self)\<lparr>consent := c\<rparr>
      in if \<not> c then (False, self\<lparr>kyc_data := d1\<rparr>, run_from w1 [Store Consent (Flag c)])
         else (True, self\<lparr>kyc_data := d1\<lparr>timestamp := clock w1\<rparr>\<rparr>,
               run_from w1
                 [Store Consent (Flag c),
                  Speak (str ''Thank you. Let me confirm your details.''),
                  Speak (str ''Name: '' @ name (kyc_data self)),
                  Speak (str ''Phone: '' @ phone (kyc_data self)),
                  Speak (str ''PAN: '' @ pan (kyc_data self)),
                  Speak (str ''Consent: Provided''),
                  Store Timestamp (Text (clock w1)),
                  Speak (str ''Your KYC verification is complete. Thank you for using Decentro services.'')]))"
  by (cases "get_consent self w")
     (simp add: consent_and_summary_def speak_run_from stored_run_from run_from_run_from
        run_from_fields Let_def)

lemma consent_and_summary_part:
  "session_part [Consent, Timestamp] self w (consent_and_summary self w)"
proof -
  define c where "c = fst (get_consent self w)"
  define w1 where "w1 = snd (get_consent self w)"
  have "dialogue (3 + max_retries self) w w1"
    unfolding w1_def by (rule consent_run_result(4) [OF get_consent_run])
  then obtain a where a: "w1 = run_from w a" "stores a = []"
      "\<not> list_ex summary_line (spoken a)"
    by (rule dialogueE)
  show ?thesis
  proof (cases c)
    case False
    let ?evs = "a @ [Store Consent (Flag False)]"
    have r: "consent_and_summary self w =
        (False, self\<lparr>kyc_data := (kyc_data self)\<lparr>consent := False\<rparr>\<rparr>, run_from w ?evs)"
      using False
      by (simp add: consent_and_summary_unfold Let_def c_def [symmetric] w1_def [symmetric] a(1)
          run_from_run_from)
    have st: "stores ?evs = [(Consent, Flag False)]"
      by (simp add: stores_append a(2))
    have sp: "spoken ?evs = spoken a"
      by (simp add: spoken_append)
    show ?thesis
      unfolding session_part_def r
      by (intro exI [of _ ?evs]) (simp add: st sp a(3) replay_def)
  next
    case True
    let ?tail = "[Store Consent (Flag True),
                  Speak (str ''Thank you. Let me confirm your details.''),
                  Speak (str ''Name: '' @ name (kyc_data self)),
                  Speak (str ''Phone: '' @ phone (kyc_data self)),
                  Speak (str ''PAN: '' @ pan (kyc_data self)),
                  Speak (str ''Consent: Provided''),
                  Store Timestamp (Text (clock w)),
                  Speak (str ''Your KYC verification is complete. Thank you for using Decentro services.'')]"
    have r: "consent_and_summary self w =
        (True, self\<lparr>kyc_data := (kyc_data self)\<lparr>consent := True, timestamp := clock w\<rparr>\<rparr>,
         run_from w (a @ ?tail))"
      using True
      by (simp add: consent_and_summary_unfold Let_def c_def [symmetric] w1_def [symmetric] a(1)
          run_from_run_from run_from_fields)
    show ?thesis
      unfolding session_part_def r
      by (intro exI [of _ "a @ ?tail"]) (simp add: stores_append a(2) replay_def)
  qed
qed

lemma not_summary_prompts:
  "\<not> summary_line (str ''May I have your full name please?'')"
  "\<not> summary_line (str ''Thank you. Now, please provide your 10-digit mobile number.'')"
  "\<not> summary_line (str ''Great. Now, please say your PAN number. That's 10 characters: 5 letters, 4 numbers, and 1 letter.'')"
  "\<not> summary_line (str ''Unable to proceed without a valid name. Ending verification.'')"
  "\<not> summary_line (str ''Unable to proceed without a valid phone number. Ending verification.'')"
  "\<not> summary_line (str ''Unable to proceed without a valid PAN. Ending verification.'')"
  "\<not> summary_line welcome_message"
  by (simp_all add: summary_line_def welcome_message_def str_def)

lemma collect_name_result:
  "dialogue (3 + max_retries self) w (snd (collect_name self w))"
  "collect_name self w = (Some n, w') \<Longrightarrow> validate_name n \<and> n \<noteq> []"
proof -
  show "dialogue (3 + max_retries self) w (snd (collect_name self w))"
    unfolding collect_name_def
    by (rule get_input_with_retry_dialogue) (rule not_summary_prompts)
  show "validate_name n \<and> n \<noteq> []" if "collect_name self w = (Some n, w')"
    using get_input_with_retry_valid [OF that [unfolded collect_name_def]]
    by (simp add: validate_name_nonempty)
qed

lemma collect_phone_result:
  "dialogue (3 + max_retries self) w (snd (collect_phone self w))"
  "collect_phone self w = (Some p, w') \<Longrightarrow> ten_digits p \<and> p \<noteq> []"
proof -
  show "dialogue (3 + max_retries self) w (snd (collect_phone self w))"
    unfolding collect_phone_def
    by (rule get_input_with_retry_dialogue) (rule not_summary_prompts)
  show "ten_digits p \<and> p \<noteq> []" if "collect_phone self w = (Some p, w')"
  proof -
    from get_input_with_retry_valid [OF that [unfolded collect_phone_def]]
    obtain t where "validate_phone p" "p = extract_phone t"
      by (auto simp: candidate_def)
    then show ?thesis
      using valid_phone_extracted [of t] validate_phone_nonempty [of p] by simp
  qed
qed

lemma collect_pan_result:
  "dialogue (3 + max_retries self) w (snd (collect_pan self w))"
  "collect_pan self w = (Some p, w') \<Longrightarrow> five_four_one p \<and> p \<noteq> []"
proof -
  show "dialogue (3 + max_retries self) w (snd (collect_pan self w))"
    unfolding collect_pan_def
    by (rule get_input_with_retry_dialogue) (rule not_summary_prompts)
  show "five_four_one p \<and> p \<noteq> []" if "collect_pan self w = (Some p, w')"
  proof -
    from get_input_with_retry_valid [OF that [unfolded collect_pan_def]]
    obtain t where "validate_pan p" "p = extract_pan t"
      by (auto simp: candidate_def)
    then show ?thesis
      using valid_pan_extracted [of t] validate_pan_nonempty [of p] by simp
  qed
qed

lemma pan_step_part: "session_part [Pan, Consent, Timestamp] self w (pan_step self w)"
proof -
  obtain r w1 where c: "collect_pan self w = (r, w1)"
    by (cases "collect_pan self w")
  have d: "dialogue (3 + max_retries self) w w1"
    using collect_pan_result(1) [of self w] by (simp add: c)
  show ?thesis
  proof (cases r)
    case None
    have "pan_step self w =
        (False, self, run_from w1 [Speak (str ''Unable to proceed without a valid PAN. Ending verification.'')])"
      by (simp add: pan_step_def c None speak_run_from)
    then show ?thesis
      using session_part_abort [OF d not_summary_prompts(6)] by simp
  next
    case (Some p)
    have p: "five_four_one p" "p \<noteq> []"
      using collect_pan_result(2) [of self w p w1] by (simp_all add: c Some)
    let ?self = "self\<lparr>kyc_data := (kyc_data self)\<lparr>pan := p\<rparr>\<rparr>"
    have "pan_step self w = consent_and_summary ?self (run_from w1 [Store Pan (Text p)])"
      by (simp add: pan_step_def c Some p(2) stored_run_from)
    moreover have "session_part [Pan, Consent, Timestamp] self w
        (consent_and_summary ?self (run_from w1 [Store Pan (Text p)]))"
      by (rule session_part_store [OF d _ _ _ _ consent_and_summary_part]) (simp_all add: p(1))
    ultimately show ?thesis by simp
  qed
qed

lemma phone_step_part: "session_part [Phone, Pan, Consent, Timestamp] self w (phone_step self w)"
proof -
  obtain r w1 where c: "collect_phone self w = (r, w1)"
    by (cases "collect_phone self w")
  have d: "dialogue (3 + max_retries self) w w1"
    using collect_phone_result(1) [of self w] by (simp add: c)
  show ?thesis
  proof (cases r)
    case None
    have "phone_step self w =
        (False, self,
         run_from w1 [Speak (str ''Unable to proceed without a valid phone number. Ending verification.'')])"
      by (simp add: phone_step_def c None speak_run_from)
    then show ?thesis
      using session_part_abort [OF d not_summary_prompts(5)] by simp
  next
    case (Some p)
    have p: "ten_digits p" "p \<noteq> []"
      using collect_phone_result(2) [of self w p w1] by (simp_all add: c Some)
    let ?self = "self\<lparr>kyc_data := (kyc_data self)\<lparr>phone := p\<rparr>\<rparr>"
    have "phone_step self w = pan_step ?self (run_from w1 [Store Phone (Text p)])"
      by (simp add: phone_step_def c Some p(2) stored_run_from)
    moreover have "session_part [Phone, Pan, Consent, Timestamp] self w
        (pan_step ?self (run_from w1 [Store Phone (Text p)]))"
      by (rule session_part_store [OF d _ _ _ _ pan_step_part]) (simp_all add: p(1))
    ultimately show ?thesis by simp
  qed
qed

lemma run_kyc_session_part: "session_part field_order self w (run_kyc_session self w)"
proof -
  let ?w0 = "run_from w [Speak welcome_message]"
  obtain r w1 where c: "collect_name self ?w0 = (r, w1)"
    by (cases "collect_name self ?w0")
  have "dialogue (3 + max_retries self) ?w0 w1"
    using collect_name_result(1) [of self ?w0] by (simp add: c)
  then have d: "dialogue (0 + (3 + max_retries self)) w w1"
    by (rule dialogue_trans [OF dialogue_run_from, rotated 3])
       (simp_all add: not_summary_prompts)
  show ?thesis
  proof (cases r)
    case None
    have "run_kyc_session self w =
        (False, self,
         run_from w1 [Speak (str ''Unable to proceed without a valid name. Ending verification.'')])"
      by (simp add: run_kyc_session_def c None speak_run_from)
    then show ?thesis
      using session_part_abort [OF d not_summary_prompts(4)] by simp
  next
    case (Some n)
    have n: "validate_name n" "n \<noteq> []"
      using collect_name_result(2) [of self ?w0 n w1] by (simp_all add: c Some)
    let ?self = "self\<lparr>kyc_data := (kyc_data self)\<lparr>name := n\<rparr>\<rparr>"
    have "run_kyc_session self w = phone_step ?self (run_from w1 [Store Name (Text n)])"
      by (simp add: run_kyc_session_def c Some n(2) stored_run_from speak_run_from)
    moreover have "session_part field_order self w
        (phone_step ?self (run_from w1 [Store Name (Text n)]))"
      unfolding field_order_def
      by (rule session_part_store [OF d _ _ _ _ phone_step_part]) (simp_all add: n(1))
    ultimately show ?thesis by simp
  qed
qed

section \<open>The record during a session\<close>

lemma record_ok_set_field:
  "record_ok d \<Longrightarrow> value_ok c kv \<Longrightarrow> record_ok (set_field d kv)"
  by (induction c kv rule: value_ok.induct) (simp_all add: record_ok_def)

lemma record_ok_foldl:
  "list_all (value_ok c) ss \<Longrightarrow> record_ok d \<Longrightarrow> record_ok (foldl set_field d ss)"
  by (induction ss arbitrary: d) (auto intro: record_ok_set_field)

lemma record_ok_prefix:
  assumes "list_all (value_ok c) (stores evs)" and "record_ok d" and "prefix es evs"
  shows "record_ok (replay es d)"
proof -
  from assms(3) obtain zs where "evs = es @ zs" by (auto simp: prefix_def)
  with assms(1) have "list_all (value_ok c) (stores es)"
    by (simp add: stores_append)
  then show ?thesis
    unfolding replay_def using assms(2) by (rule record_ok_foldl)
qed

lemma prefix_distinct: "prefix xs ys \<Longrightarrow> distinct ys \<Longrightarrow> distinct xs"
  by (auto simp: prefix_def)

lemma session_partE:
  assumes "session_part ks self w res"
  obtains evs where "snd (snd res) = run_from w evs"
    "kyc_data (fst (snd res)) = replay evs (kyc_data self)"
    "max_retries (fst (snd res)) = max_retries self"
    "prefix (map fst (stores evs)) ks"
    "list_all (value_ok (clock w)) (stores evs)"
    "fst res \<Longrightarrow> map fst (stores evs) = ks"
    "\<not> fst res \<Longrightarrow> Timestamp \<notin> set (map fst (stores evs))"
    "\<not> fst res \<Longrightarrow> \<not> list_ex summary_line (spoken evs)"
proof -
  from assms obtain evs where evs: "snd (snd res) = run_from w evs"
    "kyc_data (fst (snd res)) = replay evs (kyc_data self)"
    "max_retries (fst (snd res)) = max_retries self"
    "prefix (map fst (stores evs)) ks"
    "list_all (value_ok (clock w)) (stores evs)"
    "if fst res then map fst (stores evs) = ks
     else Timestamp \<notin> set (map fst (stores evs)) \<and> \<not> list_ex summary_line (spoken evs)"
    unfolding session_part_def by blast
  show thesis
    by (rule that [of evs]) (use evs in \<open>simp_all split: if_splits\<close>)
qed

lemma record_ok_init: "record_ok (kyc_data KYCVoiceBot_init)"
  by (simp add: record_ok_def KYCVoiceBot_init_def)

text \<open>
  Claim C9. In every run of \<^verbatim>\<open>run_kyc_session\<close> on a fresh bot the record starts with
  all fields empty and consent false; the assignments to the record come in the order
  name, phone, identifier, consent (and time stamp), none of them twice; after every
  first part of the run each text field of the record is still empty or satisfies its
  validator; and the record the run leaves is the one these assignments build.
\<close>

theorem record_lifecycle:
  "let res = run_kyc_session KYCVoiceBot_init w;
       evs = new_events w (snd (snd res))
   in kyc_data KYCVoiceBot_init =
        \<lparr>name = [], phone = [], pan = [], consent = False, timestamp = []\<rparr>
      \<and> prefix (map fst (stores evs)) [Name, Phone, Pan, Consent, Timestamp]
      \<and> distinct (map fst (stores evs))
      \<and> (\<forall>es. prefix es evs \<longrightarrow> record_ok (replay es (kyc_data KYCVoiceBot_init)))
      \<and> replay evs (kyc_data KYCVoiceBot_init) = kyc_data (fst (snd res))"
proof -
  define res where "res = run_kyc_session KYCVoiceBot_init w"
  have "session_part field_order KYCVoiceBot_init w res"
    unfolding res_def by (rule run_kyc_session_part)
  then obtain evs where evs: "snd (snd res) = run_from w evs"
    "kyc_data (fst (snd res)) = replay evs (kyc_data KYCVoiceBot_init)"
    "prefix (map fst (stores evs)) field_order"
    "list_all (value_ok (clock w)) (stores evs)"
    by (rule session_partE)
  have n: "new_events w (snd (snd res)) = evs"
    by (simp add: evs(1) new_events_run_from)
  have 1: "kyc_data KYCVoiceBot_init =
        \<lparr>name = [], phone = [], pan = [], consent = False, timestamp = []\<rparr>"
    by (simp add: KYCVoiceBot_init_def)
  have 2: "prefix (map fst (stores evs)) [Name, Phone, Pan, Consent, Timestamp]"
    using evs(3) by (simp add: field_order_def)
  have 3: "distinct (map fst (stores evs))"
    using 2 by (rule prefix_distinct) simp
  have 4: "\<forall>es. prefix es evs \<longrightarrow> record_ok (replay es (kyc_data KYCVoiceBot_init))"
    using record_ok_prefix [OF evs(4) record_ok_init] by blast
  show ?thesis
    unfolding Let_def res_def [symmetric] n using 1 2 3 4 evs(2) by simp
qed

theorem record_lifecycle_witness:
  "prefix
     (take 7 (new_events
        \<lparr>pending = [Some (str ''Asha Rao''), Some (str ''98765 43210''), None, None, None], clock = [],
           writable = False, files = Map.empty, trace = []\<rparr>
        (snd (snd (run_kyc_session KYCVoiceBot_init
           \<lparr>pending = [Some (str ''Asha Rao''), Some (str ''98765 43210''), None, None, None], clock = [],
              writable = False, files = Map.empty, trace = []\<rparr>)))))
     (new_events
        \<lparr>pending = [Some (str ''Asha Rao''), Some (str ''98765 43210''), None, None, None], clock = [],
           writable = False, files = Map.empty, trace = []\<rparr>
        (snd (snd (run_kyc_session KYCVoiceBot_init
           \<lparr>pending = [Some (str ''Asha Rao''), Some (str ''98765 43210''), None, None, None], clock = [],
              writable = False, files = Map.empty, trace = []\<rparr>))))
   \<and> record_ok (replay
        (take 7 (new_events
           \<lparr>pending = [Some (str ''Asha Rao''), Some (str ''98765 43210''), None, None, None], clock = [],
              writable = False, files = Map.empty, trace = []\<rparr>
           (snd (snd (run_kyc_session KYCVoiceBot_init
              \<lparr>pending = [Some (str ''Asha Rao''), Some (str ''98765 43210''), None, None, None], clock = [],
                 writable = False, files = Map.empty, trace = []\<rparr>)))))
        (kyc_data KYCVoiceBot_init))
   \<and> replay
        (take 7 (new_events
           \<lparr>pending = [Some (str ''Asha Rao''), Some (str ''98765 43210''), None, None, None], clock = [],
              writable = False, files = Map.empty, trace = []\<rparr>
           (snd (snd (run_kyc_session KYCVoiceBot_init
              \<lparr>pending = [Some (str ''Asha Rao''), Some (str ''98765 43210''), None, None, None], clock = [],
                 writable = False, files = Map.empty, trace = []\<rparr>)))))
        (kyc_data KYCVoiceBot_init)
       = \<lparr>name = str ''Asha Rao'', phone = str ''9876543210'', pan = [], consent = False,
            timestamp = []\<rparr>"
proof -
  let ?w = "\<lparr>pending = [Some (str ''Asha Rao''), Some (str ''98765 43210''), None, None, None], clock = [],
              writable = False, files = Map.empty, trace = []\<rparr>"
  let ?evs = "new_events ?w (snd (snd (run_kyc_session KYCVoiceBot_init ?w)))"
  have p: "prefix (take 7 ?evs) ?evs" by (rule take_is_prefix)
  have "\<forall>es. prefix es ?evs \<longrightarrow> record_ok (replay es (kyc_data KYCVoiceBot_init))"
    using record_lifecycle [of ?w] unfolding Let_def by (elim conjE)
  with p have r: "record_ok (replay (take 7 ?evs) (kyc_data KYCVoiceBot_init))" by blast
  have e: "replay (take 7 ?evs) (kyc_data KYCVoiceBot_init)
       = \<lparr>name = str ''Asha Rao'', phone = str ''9876543210'', pan = [], consent = False,
            timestamp = []\<rparr>"
    by code_simp
  from p r e show ?thesis by (intro conjI)
qed

lemma set_field_timestamp: "k \<noteq> Timestamp \<Longrightarrow> timestamp (set_field d (k, v)) = timestamp d"
  by (cases k; cases v) simp_all

lemma foldl_set_field_timestamp:
  "Timestamp \<notin> set (map fst ss) \<Longrightarrow> timestamp (foldl set_field d ss) = timestamp d"
  by (induction ss arbitrary: d) (auto simp: set_field_timestamp)

lemma value_ok_Timestamp: "value_ok c (Timestamp, v) \<Longrightarrow> v = Text c"
  by (cases v) simp_all

lemma stores_success:
  assumes "map fst ss = [Name, Phone, Pan, Consent, Timestamp]" and "list_all (value_ok c) ss"
  shows "filter (\<lambda>kv. fst kv = Timestamp) ss = [(Timestamp, Text c)]"
    and "timestamp (foldl set_field d ss) = c"
proof -
  from assms(1) obtain v1 v2 v3 v4 v5 where
    ss: "ss = [(Name, v1), (Phone, v2), (Pan, v3), (Consent, v4), (Timestamp, v5)]"
    by (auto simp: map_eq_Cons_conv)
  from assms(2) have v5: "v5 = Text c"
    by (simp add: ss value_ok_Timestamp)
  show "filter (\<lambda>kv. fst kv = Timestamp) ss = [(Timestamp, Text c)]"
    by (simp add: ss v5)
  have "timestamp (foldl set_field d [(Name, v1), (Phone, v2), (Pan, v3), (Consent, v4)])
          = timestamp d"
    by (rule foldl_set_field_timestamp) simp
  then show "timestamp (foldl set_field d ss) = c"
    by (simp add: ss v5)
qed

lemma main_unfold:
  "main w =
     (let res = run_kyc_session KYCVoiceBot_init w
      in if fst res
         then (True, fst (snd res),
               if writable (snd (snd res))
               then (snd (snd res))\<lparr>files := (files (snd (snd res)))
                      (''kyc_session.json'' \<mapsto> kyc_data (fst (snd res)))\<rparr>
               else snd (snd res))
         else res)"
  by (cases "run_kyc_session KYCVoiceBot_init w") (simp add: main_def save_to_json_def)

lemma main_session:
  "fst (main w) = fst (run_kyc_session KYCVoiceBot_init w)"
  "fst (snd (main w)) = fst (snd (run_kyc_session KYCVoiceBot_init w))"
  "new_events w (snd (snd (main w))) = new_events w (snd (snd (run_kyc_session KYCVoiceBot_init w)))"
  "pending (snd (snd (main w))) = pending (snd (snd (run_kyc_session KYCVoiceBot_init w)))"
  "\<not> fst (main w) \<Longrightarrow> snd (snd (main w)) = snd (snd (run_kyc_session KYCVoiceBot_init w))"
  by (auto simp: main_unfold Let_def new_events_def split: if_splits)

section \<open>Runs of the session\<close>

lemma get_input_with_retry_first_try:
  "heard_next w = Some t \<Longrightarrow> vf (candidate ef t)
     \<Longrightarrow> get_input_with_retry self prompt vf ef fname w =
          (Some (candidate ef t), run_from w [Speak prompt, Listen (Some t)])"
  by (simp add: get_input_with_retry_unfold heard_next_speak validate_captured_def
      candidate_def Let_def)

lemma get_input_with_retry_three_absences:
  "pending w = None # None # None # rest
     \<Longrightarrow> get_input_with_retry self prompt vf ef fname w =
          (None,
           run_from w
             [Speak prompt, Listen None,
              Speak (str ''I didn't catch that. Please say it again.''), Listen None,
              Speak (str ''I'm still having trouble hearing you. Let's try one more time.''), Listen None,
              Speak (str ''I'm sorry, I couldn't hear your '' @ fname @ str ''.'')])"
  by (simp add: get_input_with_retry_unfold heard_next_run_from run_from_run_from Let_def)

lemma get_consent_first_response:
  "heard_next w = Some r \<Longrightarrow>
     get_consent self w =
       check_response self r
         (run_from w [Speak (str ''Do you consent to this KYC verification? Please say yes or no.''),
                      Listen (Some r)])"
  by (simp add: get_consent_unfold heard_next_speak Let_def)

lemma first_try_fields:
  assumes p: "pending w = Some n # Some p # Some i # rest"
    and vn: "validate_name (py_strip n)"
    and vp: "validate_phone (extract_phone (py_strip p))"
    and vi: "validate_pan (extract_pan (py_strip i))"
  shows "run_kyc_session self w =
     consent_and_summary
       (self\<lparr>kyc_data := (kyc_data self)\<lparr>name := py_strip n, phone := extract_phone (py_strip p),
                                         pan := extract_pan (py_strip i)\<rparr>\<rparr>)
       (run_from w
          [Speak welcome_message,
           Speak (str ''May I have your full name please?''), Listen (Some (py_strip n)),
           Store Name (Text (py_strip n)),
           Speak (str ''Thank you. Now, please provide your 10-digit mobile number.''),
           Listen (Some (py_strip p)), Store Phone (Text (extract_phone (py_strip p))),
           Speak (str ''Great. Now, please say your PAN number. That's 10 characters: 5 letters, 4 numbers, and 1 letter.''),
           Listen (Some (py_strip i)), Store Pan (Text (extract_pan (py_strip i)))])"
proof -
  let ?self1 = "self\<lparr>kyc_data := (kyc_data self)\<lparr>name := py_strip n\<rparr>\<rparr>"
  let ?self2 = "?self1\<lparr>kyc_data := (kyc_data ?self1)\<lparr>phone := extract_phone (py_strip p)\<rparr>\<rparr>"
  let ?w0 = "run_from w [Speak welcome_message]"
  let ?w1 = "run_from w [Speak welcome_message,
           Speak (str ''May I have your full name please?''), Listen (Some (py_strip n)),
           Store Name (Text (py_strip n))]"
  let ?w2 = "run_from ?w1 [Speak (str ''Thank you. Now, please provide your 10-digit mobile number.''),
           Listen (Some (py_strip p)), Store Phone (Text (extract_phone (py_strip p)))]"
  have h0: "heard_next ?w0 = Some (py_strip n)"
    by (simp add: heard_next_run_from p)
  have c1: "collect_name self ?w0 =
      (Some (py_strip n),
       run_from ?w0 [Speak (str ''May I have your full name please?''), Listen (Some (py_strip n))])"
    using get_input_with_retry_first_try [OF h0, where vf = validate_name and ef = None] vn
    by (simp add: collect_name_def candidate_def)
  have s1: "run_kyc_session self w = phone_step ?self1 ?w1"
    using validate_name_nonempty [OF vn] c1
    by (simp add: run_kyc_session_def speak_run_from stored_run_from run_from_run_from)
  have h1: "heard_next ?w1 = Some (py_strip p)"
    by (simp add: heard_next_run_from p)
  have c2: "collect_phone ?self1 ?w1 =
      (Some (extract_phone (py_strip p)),
       run_from ?w1 [Speak (str ''Thank you. Now, please provide your 10-digit mobile number.''),
                     Listen (Some (py_strip p))])"
    using get_input_with_retry_first_try [OF h1, where vf = validate_phone
        and ef = "Some extract_phone"] vp
    by (simp add: collect_phone_def candidate_def)
  have s2: "phone_step ?self1 ?w1 = pan_step ?self2 ?w2"
    using validate_phone_nonempty [OF vp] c2
    by (simp add: phone_step_def stored_run_from run_from_run_from)
  have h2: "heard_next ?w2 = Some (py_strip i)"
    by (simp add: heard_next_run_from run_from_run_from p)
  have c3: "collect_pan ?self2 ?w2 =
      (Some (extract_pan (py_strip i)),
       run_from ?w2 [Speak (str ''Great. Now, please say your PAN number. That's 10 characters: 5 letters, 4 numbers, and 1 letter.''),
                     Listen (Some (py_strip i))])"
    using get_input_with_retry_first_try [OF h2, where vf = validate_pan
        and ef = "Some extract_pan"] vi
    by (simp add: collect_pan_def candidate_def)
  have s3: "pan_step ?self2 ?w2 =
     consent_and_summary
       (?self2\<lparr>kyc_data := (kyc_data ?self2)\<lparr>pan := extract_pan (py_strip i)\<rparr>\<rparr>)
       (run_from ?w2
          [Speak (str ''Great. Now, please say your PAN number. That's 10 characters: 5 letters, 4 numbers, and 1 letter.''),
           Listen (Some (py_strip i)), Store Pan (Text (extract_pan (py_strip i)))])"
    using validate_pan_nonempty [OF vi] c3
    by (simp add: pan_step_def stored_run_from run_from_run_from)
  show ?thesis
    unfolding s1 s2 s3 by (simp add: run_from_run_from)
qed

lemma first_try_session:
  assumes p: "pending w = Some n # Some p # Some i # Some c # rest"
    and vn: "validate_name (py_strip n)"
    and vp: "validate_phone (extract_phone (py_strip p))"
    and vi: "validate_pan (extract_pan (py_strip i))"
  shows "affirmative (py_strip c) \<Longrightarrow>
     fst (run_kyc_session self w)
     \<and> kyc_data (fst (snd (run_kyc_session self w))) =
         (kyc_data self)\<lparr>name := py_strip n, phone := extract_phone (py_strip p),
                         pan := extract_pan (py_strip i), consent := True, timestamp := clock w\<rparr>
     \<and> pending (snd (snd (run_kyc_session self w))) = rest
     \<and> files (snd (snd (run_kyc_session self w))) = files w
     \<and> writable (snd (snd (run_kyc_session self w))) = writable w
     \<and> (Timestamp, Text (clock w))
           \<in> set (stores (new_events w (snd (snd (run_kyc_session self w)))))"
    and "\<not> affirmative (py_strip c) \<Longrightarrow> negative (py_strip c) \<Longrightarrow>
     \<not> fst (run_kyc_session self w)
     \<and> kyc_data (fst (snd (run_kyc_session self w))) =
         (kyc_data self)\<lparr>name := py_strip n, phone := extract_phone (py_strip p),
                         pan := extract_pan (py_strip i), consent := False\<rparr>
     \<and> pending (snd (snd (run_kyc_session self w))) = rest
     \<and> files (snd (snd (run_kyc_session self w))) = files w
     \<and> decline_ack \<in> set (spoken (new_events w (snd (snd (run_kyc_session self w)))))"
proof -
  define self3 where "self3 =
    self\<lparr>kyc_data := (kyc_data self)\<lparr>name := py_strip n, phone := extract_phone (py_strip p),
                                      pan := extract_pan (py_strip i)\<rparr>\<rparr>"
  define E where "E =
          [Speak welcome_message,
           Speak (str ''May I have your full name please?''), Listen (Some (py_strip n)),
           Store Name (Text (py_strip n)),
           Speak (str ''Thank you. Now, please provide your 10-digit mobile number.''),
           Listen (Some (py_strip p)), Store Phone (Text (extract_phone (py_strip p))),
           Speak (str ''Great. Now, please say your PAN number. That's 10 characters: 5 letters, 4 numbers, and 1 letter.''),
           Listen (Some (py_strip i)), Store Pan (Text (extract_pan (py_strip i)))]"
  define q where "q = str ''Do you consent to this KYC verification? Please say yes or no.''"
  have p': "pending w = Some n # Some p # Some i # ([Some c] @ rest)"
    by (simp add: p)
  have run: "run_kyc_session self w = consent_and_summary self3 (run_from w E)"
    unfolding self3_def E_def
    by (rule first_try_fields [OF p' vn vp vi])
  have lE: "length (listens E) = 3" and sE: "stores E =
      [(Name, Text (py_strip n)), (Phone, Text (extract_phone (py_strip p))),
       (Pan, Text (extract_pan (py_strip i)))]"
    by (simp_all add: E_def)
  have h: "heard_next (run_from w E) = Some (py_strip c)"
    by (simp add: heard_next_run_from lE p)
  have g: "get_consent self3 (run_from w E) =
      check_response self3 (py_strip c) (run_from w (E @ [Speak q, Listen (Some (py_strip c))]))"
    using get_consent_first_response [OF h, of self3]
    by (simp add: q_def run_from_run_from)
  {
    assume a: "affirmative (py_strip c)"
    let ?tail = "[Speak q, Listen (Some (py_strip c)), Store Consent (Flag True),
                  Speak (str ''Thank you. Let me confirm your details.''),
                  Speak (str ''Name: '' @ name (kyc_data self3)),
                  Speak (str ''Phone: '' @ phone (kyc_data self3)),
                  Speak (str ''PAN: '' @ pan (kyc_data self3)),
                  Speak (str ''Consent: Provided''),
                  Store Timestamp (Text (clock w)),
                  Speak (str ''Your KYC verification is complete. Thank you for using Decentro services.'')]"
    have r: "run_kyc_session self w =
      (True, self3\<lparr>kyc_data := (kyc_data self3)\<lparr>consent := True, timestamp := clock w\<rparr>\<rparr>,
       run_from w (E @ ?tail))"
      using a
      by (simp add: run consent_and_summary_unfold g check_response_unfold Let_def
          run_from_run_from run_from_fields)
    have "length (listens (E @ ?tail)) = 4" and "(Timestamp, Text (clock w)) \<in> set (stores (E @ ?tail))"
      by (simp_all add: listens_append stores_append lE)
    then show "fst (run_kyc_session self w)
     \<and> kyc_data (fst (snd (run_kyc_session self w))) =
         (kyc_data self)\<lparr>name := py_strip n, phone := extract_phone (py_strip p),
                         pan := extract_pan (py_strip i), consent := True, timestamp := clock w\<rparr>
     \<and> pending (snd (snd (run_kyc_session self w))) = rest
     \<and> files (snd (snd (run_kyc_session self w))) = files w
     \<and> writable (snd (snd (run_kyc_session self w))) = writable w
     \<and> (Timestamp, Text (clock w))
           \<in> set (stores (new_events w (snd (snd (run_kyc_session self w)))))"
      unfolding r by (simp add: run_from_fields new_events_run_from p self3_def)
  }
  {
    assume a: "\<not> affirmative (py_strip c)" and b: "negative (py_strip c)"
    let ?tail = "[Speak q, Listen (Some (py_strip c)), Speak decline_ack,
                  Store Consent (Flag False)]"
    have r: "run_kyc_session self w =
      (False, self3\<lparr>kyc_data := (kyc_data self3)\<lparr>consent := False\<rparr>\<rparr>, run_from w (E @ ?tail))"
      using a b
      by (simp add: run consent_and_summary_unfold g check_response_unfold Let_def
          run_from_run_from run_from_fields)
    have "length (listens (E @ ?tail)) = 4" and "decline_ack \<in> set (spoken (E @ ?tail))"
      by (simp_all add: listens_append spoken_append lE)
    then show "\<not> fst (run_kyc_session self w)
     \<and> kyc_data (fst (snd (run_kyc_session self w))) =
         (kyc_data self)\<lparr>name := py_strip n, phone := extract_phone (py_strip p),
                         pan := extract_pan (py_strip i), consent := False\<rparr>
     \<and> pending (snd (snd (run_kyc_session self w))) = rest
     \<and> files (snd (snd (run_kyc_session self w))) = files w
     \<and> decline_ack \<in> set (spoken (new_events w (snd (snd (run_kyc_session self w)))))"
      unfolding r by (simp add: run_from_fields new_events_run_from p self3_def)
  }
qed

text \<open>
  Claim C1. When the four calls of \<^verbatim>\<open>listen\<close> capture \<^verbatim>\<open>John Smith\<close>,
  \<^verbatim>\<open>9876543210\<close>, \<^verbatim>\<open>abcde1234f\<close> and \<^verbatim>\<open>yes\<close>, each at the first attempt, and the
  output file can be written, the session succeeds, the record is name \<^verbatim>\<open>John Smith\<close>,
  phone \<^verbatim>\<open>9876543210\<close>, identifier \<^verbatim>\<open>ABCDE1234F\<close>, consent true, with the time stamp
  assigned from the clock, and this record is what \<^verbatim>\<open>kyc_session.json\<close> holds.
\<close>

theorem end_to_end_success:
  assumes "pending w = Some (str ''John Smith'') # Some (str ''9876543210'') # Some (str ''abcde1234f'')
                         # Some (str ''yes'') # rest"
    and "writable w"
  shows "fst (main w)
     \<and> kyc_data (fst (snd (main w))) =
         \<lparr>name = str ''John Smith'', phone = str ''9876543210'', pan = str ''ABCDE1234F'', consent = True,
            timestamp = clock w\<rparr>
     \<and> (Timestamp, Text (clock w)) \<in> set (stores (new_events w (snd (snd (main w)))))
     \<and> files (snd (snd (main w))) =
         (files w)(''kyc_session.json'' \<mapsto> kyc_data (fst (snd (main w))))
     \<and> pending (snd (snd (main w))) = rest"
proof -
  have s: "py_strip (str ''John Smith'') = str ''John Smith''" "py_strip (str ''9876543210'') = str ''9876543210''"
    "py_strip (str ''abcde1234f'') = str ''abcde1234f''" "py_strip (str ''yes'') = str ''yes''"
    by code_simp+
  have e: "extract_phone (str ''9876543210'') = str ''9876543210''" "extract_pan (str ''abcde1234f'') = str ''ABCDE1234F''"
    by code_simp+
  have v: "validate_name (str ''John Smith'')" "validate_phone (str ''9876543210'')" "validate_pan (str ''ABCDE1234F'')"
    "affirmative (str ''yes'')"
    by code_simp+
  have vn: "validate_name (py_strip (str ''John Smith''))" by (simp only: s v)
  have vp: "validate_phone (extract_phone (py_strip (str ''9876543210'')))" by (simp only: s e v)
  have vi: "validate_pan (extract_pan (py_strip (str ''abcde1234f'')))" by (simp only: s e v)
  have a: "affirmative (py_strip (str ''yes''))" by (simp only: s v)
  note r = first_try_session(1) [OF assms(1) vn vp vi a, of KYCVoiceBot_init, unfolded s e]
  let ?res = "run_kyc_session KYCVoiceBot_init w"
  from r have ok: "fst ?res" by (elim conjE)
  from r have d: "kyc_data (fst (snd ?res)) =
      \<lparr>name = str ''John Smith'', phone = str ''9876543210'', pan = str ''ABCDE1234F'', consent = True,
         timestamp = clock w\<rparr>"
    by (simp add: KYCVoiceBot_init_def)
  from r have pw: "pending (snd (snd ?res)) = rest" by (elim conjE)
  from r have fw: "files (snd (snd ?res)) = files w" by (elim conjE)
  from r have ww: "writable (snd (snd ?res)) = writable w" by (elim conjE)
  from r have ts: "(Timestamp, Text (clock w)) \<in> set (stores (new_events w (snd (snd ?res))))"
    by (elim conjE)
  have 1: "fst (main w)" by (simp add: main_session(1) ok)
  have 2: "kyc_data (fst (snd (main w))) =
      \<lparr>name = str ''John Smith'', phone = str ''9876543210'', pan = str ''ABCDE1234F'', consent = True,
         timestamp = clock w\<rparr>"
    by (simp only: main_session(2) d)
  have 3: "(Timestamp, Text (clock w)) \<in> set (stores (new_events w (snd (snd (main w)))))"
    by (simp only: main_session(3) ts)
  have 4: "files (snd (snd (main w))) =
      (files w)(''kyc_session.json'' \<mapsto> kyc_data (fst (snd (main w))))"
    using ok ww assms(2) fw by (simp add: main_unfold Let_def)
  have 5: "pending (snd (snd (main w))) = rest"
    by (simp only: main_session(4) pw)
  from 1 2 3 4 5 show ?thesis by (intro conjI)
qed

theorem end_to_end_success_witness:
  "pending \<lparr>pending = [Some (str ''John Smith''), Some (str ''9876543210''), Some (str ''abcde1234f''), Some (str ''yes'')],
             clock = str ''2026-01-05T10:15:00'', writable = True, files = Map.empty, trace = []\<rparr>
     = Some (str ''John Smith'') # Some (str ''9876543210'') # Some (str ''abcde1234f'') # Some (str ''yes'') # []
   \<and> writable \<lparr>pending = [Some (str ''John Smith''), Some (str ''9876543210''), Some (str ''abcde1234f''), Some (str ''yes'')],
             clock = str ''2026-01-05T10:15:00'', writable = True, files = Map.empty, trace = []\<rparr>
   \<and> fst (main \<lparr>pending = [Some (str ''John Smith''), Some (str ''9876543210''), Some (str ''abcde1234f''), Some (str ''yes'')],
             clock = str ''2026-01-05T10:15:00'', writable = True, files = Map.empty, trace = []\<rparr>)
   \<and> files (snd (snd (main
          \<lparr>pending = [Some (str ''John Smith''), Some (str ''9876543210''), Some (str ''abcde1234f''), Some (str ''yes'')],
             clock = str ''2026-01-05T10:15:00'', writable = True, files = Map.empty, trace = []\<rparr>)))
         ''kyc_session.json''
       = Some \<lparr>name = str ''John Smith'', phone = str ''9876543210'', pan = str ''ABCDE1234F'', consent = True,
                 timestamp = str ''2026-01-05T10:15:00''\<rparr>"
proof -
  let ?w = "\<lparr>pending = [Some (str ''John Smith''), Some (str ''9876543210''), Some (str ''abcde1234f''), Some (str ''yes'')],
              clock = str ''2026-01-05T10:15:00'', writable = True, files = Map.empty, trace = []\<rparr>"
  have p: "pending ?w = Some (str ''John Smith'') # Some (str ''9876543210'') # Some (str ''abcde1234f'')
                         # Some (str ''yes'') # []"
    by simp
  have wr: "writable ?w" by simp
  note r = end_to_end_success [OF p wr]
  from r have ok: "fst (main ?w)" by (elim conjE)
  from r have d: "kyc_data (fst (snd (main ?w))) =
      \<lparr>name = str ''John Smith'', phone = str ''9876543210'', pan = str ''ABCDE1234F'', consent = True,
         timestamp = clock ?w\<rparr>"
    by (elim conjE)
  from r have f: "files (snd (snd (main ?w))) =
      (files ?w)(''kyc_session.json'' \<mapsto> kyc_data (fst (snd (main ?w))))"
    by (elim conjE)
  have "files (snd (snd (main ?w))) ''kyc_session.json'' = Some (kyc_data (fst (snd (main ?w))))"
    by (subst f) simp
  then have g: "files (snd (snd (main ?w))) ''kyc_session.json''
       = Some \<lparr>name = str ''John Smith'', phone = str ''9876543210'', pan = str ''ABCDE1234F'', consent = True,
                 timestamp = str ''2026-01-05T10:15:00''\<rparr>"
    by (simp add: d)
  from p wr ok g show ?thesis by (intro conjI)
qed

text \<open>
  Claim C3. The time stamp is assigned once, and only when the session succeeds: after
  a successful run it is the reading of the clock and the history holds exactly one
  assignment to it; after a failed run, whichever step failed, it is still empty, the
  history holds no assignment to it and no line of the summary, and no file has been
  written. In particular, when name, phone and identifier are captured at the first
  attempt and the consent response is negative (as \<^verbatim>\<open>no\<close> is), the run fails with the
  three fields filled, consent false, the time stamp empty and no file written.
\<close>

theorem timestamp_only_on_success:
  "(fst (main w) \<longrightarrow>
      timestamp (kyc_data (fst (snd (main w)))) = clock w
      \<and> filter (\<lambda>kv. fst kv = Timestamp) (stores (new_events w (snd (snd (main w)))))
          = [(Timestamp, Text (clock w))])
   \<and> (\<not> fst (main w) \<longrightarrow>
      timestamp (kyc_data (fst (snd (main w)))) = []
      \<and> Timestamp \<notin> set (map fst (stores (new_events w (snd (snd (main w))))))
      \<and> \<not> list_ex summary_line (spoken (new_events w (snd (snd (main w)))))
      \<and> files (snd (snd (main w))) = files w)
   \<and> (pending w = Some n # Some p # Some i # Some c # rest
      \<and> validate_name (py_strip n) \<and> validate_phone (extract_phone (py_strip p))
      \<and> validate_pan (extract_pan (py_strip i))
      \<and> \<not> affirmative (py_strip c) \<and> negative (py_strip c) \<longrightarrow>
      \<not> fst (main w)
      \<and> kyc_data (fst (snd (main w))) =
          \<lparr>name = py_strip n, phone = extract_phone (py_strip p),
             pan = extract_pan (py_strip i), consent = False, timestamp = []\<rparr>
      \<and> py_strip n \<noteq> [] \<and> extract_phone (py_strip p) \<noteq> [] \<and> extract_pan (py_strip i) \<noteq> []
      \<and> files (snd (snd (main w))) = files w)"
proof -
  define res where "res = run_kyc_session KYCVoiceBot_init w"
  have "session_part field_order KYCVoiceBot_init w res"
    unfolding res_def by (rule run_kyc_session_part)
  then obtain evs where evs0: "snd (snd res) = run_from w evs"
    "kyc_data (fst (snd res)) = replay evs (kyc_data KYCVoiceBot_init)"
    "list_all (value_ok (clock w)) (stores evs)"
    "if fst res then map fst (stores evs) = field_order
     else Timestamp \<notin> set (map fst (stores evs)) \<and> \<not> list_ex summary_line (spoken evs)"
    unfolding session_part_def by blast
  have evs: "snd (snd res) = run_from w evs"
    "kyc_data (fst (snd res)) = replay evs (kyc_data KYCVoiceBot_init)"
    "list_all (value_ok (clock w)) (stores evs)"
    "fst res \<Longrightarrow> map fst (stores evs) = field_order"
    "\<not> fst res \<Longrightarrow> Timestamp \<notin> set (map fst (stores evs))"
    "\<not> fst res \<Longrightarrow> \<not> list_ex summary_line (spoken evs)"
    using evs0 by (simp_all split: if_splits)
  have m: "fst (main w) = fst res" "fst (snd (main w)) = fst (snd res)"
    "new_events w (snd (snd (main w))) = evs"
    "\<not> fst (main w) \<Longrightarrow> snd (snd (main w)) = snd (snd res)"
    by (simp_all add: main_session res_def [symmetric] evs(1) new_events_run_from)
  have d0: "timestamp (kyc_data KYCVoiceBot_init) = []"
    by (simp add: KYCVoiceBot_init_def)
  have 1: "timestamp (kyc_data (fst (snd (main w)))) = clock w
      \<and> filter (\<lambda>kv. fst kv = Timestamp) (stores (new_events w (snd (snd (main w)))))
          = [(Timestamp, Text (clock w))]"
    if "fst (main w)"
  proof -
    from that have "map fst (stores evs) = [Name, Phone, Pan, Consent, Timestamp]"
      using evs(4) by (simp add: m(1) field_order_def)
    from stores_success(1) [OF this evs(3)]
      stores_success(2) [OF this evs(3), of "kyc_data KYCVoiceBot_init"]
    show ?thesis
      by (simp add: m(2) m(3) evs(2) replay_def)
  qed
  have 2: "timestamp (kyc_data (fst (snd (main w)))) = []
      \<and> Timestamp \<notin> set (map fst (stores (new_events w (snd (snd (main w))))))
      \<and> \<not> list_ex summary_line (spoken (new_events w (snd (snd (main w)))))
      \<and> files (snd (snd (main w))) = files w"
    if "\<not> fst (main w)"
  proof -
    from that have f: "\<not> fst res" by (simp add: m(1))
    have "timestamp (kyc_data (fst (snd (main w)))) = []"
      using foldl_set_field_timestamp [OF evs(5) [OF f], of "kyc_data KYCVoiceBot_init"]
      by (simp add: m(2) evs(2) replay_def d0)
    moreover have "files (snd (snd (main w))) = files w"
      by (simp add: m(4) [OF that] evs(1) run_from_fields)
    ultimately show ?thesis
      using evs(5) [OF f] evs(6) [OF f] by (simp add: m(3))
  qed
  have 3: "\<not> fst (main w)
      \<and> kyc_data (fst (snd (main w))) =
          \<lparr>name = py_strip n, phone = extract_phone (py_strip p),
             pan = extract_pan (py_strip i), consent = False, timestamp = []\<rparr>
      \<and> py_strip n \<noteq> [] \<and> extract_phone (py_strip p) \<noteq> [] \<and> extract_pan (py_strip i) \<noteq> []
      \<and> files (snd (snd (main w))) = files w"
    if "pending w = Some n # Some p # Some i # Some c # rest"
      "validate_name (py_strip n)" "validate_phone (extract_phone (py_strip p))"
      "validate_pan (extract_pan (py_strip i))"
      "\<not> affirmative (py_strip c)" "negative (py_strip c)"
  proof -
    note r = first_try_session(2) [OF that, of KYCVoiceBot_init]
    from r have f: "\<not> fst (main w)" by (simp add: main_session(1))
    from r have "kyc_data (fst (snd (main w))) =
          \<lparr>name = py_strip n, phone = extract_phone (py_strip p),
             pan = extract_pan (py_strip i), consent = False, timestamp = []\<rparr>"
      by (simp add: main_session(2) KYCVoiceBot_init_def)
    then show ?thesis
      using f 2 [OF f] validate_name_nonempty [OF that(2)] validate_phone_nonempty [OF that(3)]
        validate_pan_nonempty [OF that(4)]
      by simp
  qed
  from 1 2 3 show ?thesis by blast
qed

theorem timestamp_only_on_success_witness:
  "pending \<lparr>pending = [Some (str ''John Smith''), Some (str ''9876543210''), Some (str ''abcde1234f''), Some (str ''no'')],
             clock = str ''2026-01-05T10:15:00'', writable = True, files = Map.empty, trace = []\<rparr>
     = Some (str ''John Smith'') # Some (str ''9876543210'') # Some (str ''abcde1234f'') # Some (str ''no'') # []
   \<and> validate_name (py_strip (str ''John Smith''))
   \<and> validate_phone (extract_phone (py_strip (str ''9876543210'')))
   \<and> validate_pan (extract_pan (py_strip (str ''abcde1234f'')))
   \<and> \<not> affirmative (py_strip (str ''no'')) \<and> negative (py_strip (str ''no''))
   \<and> \<not> fst (main
         \<lparr>pending = [Some (str ''John Smith''), Some (str ''9876543210''), Some (str ''abcde1234f''), Some (str ''no'')],
            clock = str ''2026-01-05T10:15:00'', writable = True, files = Map.empty, trace = []\<rparr>)
   \<and> timestamp (kyc_data (fst (snd (main
         \<lparr>pending = [Some (str ''John Smith''), Some (str ''9876543210''), Some (str ''abcde1234f''), Some (str ''no'')],
            clock = str ''2026-01-05T10:15:00'', writable = True, files = Map.empty, trace = []\<rparr>)))) = []
   \<and> files (snd (snd (main
         \<lparr>pending = [Some (str ''John Smith''), Some (str ''9876543210''), Some (str ''abcde1234f''), Some (str ''no'')],
            clock = str ''2026-01-05T10:15:00'', writable = True, files = Map.empty, trace = []\<rparr>)))
       = Map.empty
   \<and> fst (main
         \<lparr>pending = [Some (str ''Asha Rao''), Some (str ''98765 43210''), Some (str ''bnzpk 4821 q''), Some (str ''Yeah'')],
            clock = str ''2026-01-05T10:20:00'', writable = True, files = Map.empty, trace = []\<rparr>)
   \<and> timestamp (kyc_data (fst (snd (main
         \<lparr>pending = [Some (str ''Asha Rao''), Some (str ''98765 43210''), Some (str ''bnzpk 4821 q''), Some (str ''Yeah'')],
            clock = str ''2026-01-05T10:20:00'', writable = True, files = Map.empty, trace = []\<rparr>))))
       = str ''2026-01-05T10:20:00''"
proof -
  let ?wn = "\<lparr>pending = [Some (str ''John Smith''), Some (str ''9876543210''), Some (str ''abcde1234f''), Some (str ''no'')],
            clock = str ''2026-01-05T10:15:00'', writable = True, files = Map.empty, trace = []\<rparr>"
  let ?wy = "\<lparr>pending = [Some (str ''Asha Rao''), Some (str ''98765 43210''), Some (str ''bnzpk 4821 q''), Some (str ''Yeah'')],
            clock = str ''2026-01-05T10:20:00'', writable = True, files = Map.empty, trace = []\<rparr>"
  have p: "pending ?wn = Some (str ''John Smith'') # Some (str ''9876543210'') # Some (str ''abcde1234f'')
                          # Some (str ''no'') # []"
    by simp
  have vn: "validate_name (py_strip (str ''John Smith''))" by code_simp
  have vp: "validate_phone (extract_phone (py_strip (str ''9876543210'')))" by code_simp
  have vi: "validate_pan (extract_pan (py_strip (str ''abcde1234f'')))" by code_simp
  have na: "\<not> affirmative (py_strip (str ''no''))" by code_simp
  have ng: "negative (py_strip (str ''no''))" by code_simp
  note T = timestamp_only_on_success
    [of ?wn "str ''John Smith''" "str ''9876543210''" "str ''abcde1234f''" "str ''no''" "[]"]
  from T p vn vp vi na ng have f: "\<not> fst (main ?wn)" by blast
  from T f have t: "timestamp (kyc_data (fst (snd (main ?wn)))) = []" by blast
  from T f have "files (snd (snd (main ?wn))) = files ?wn" by blast
  then have fl: "files (snd (snd (main ?wn))) = Map.empty" by simp
  have y: "fst (main ?wy)" by code_simp
  note U = timestamp_only_on_success [of ?wy, THEN conjunct1]
  from U y have "timestamp (kyc_data (fst (snd (main ?wy)))) = clock ?wy" by blast
  then have c: "timestamp (kyc_data (fst (snd (main ?wy)))) = str ''2026-01-05T10:20:00''" by simp
  from p vn vp vi na ng f t fl y c show ?thesis by (intro conjI)
qed

lemma three_absences_step:
  assumes "pending w = None # None # None # rest"
  shows "\<exists>evs. get_input_with_retry self prompt vf ef fname w = (None, run_from w evs)
           \<and> listens evs = [None, None, None] \<and> stores evs = []"
  using get_input_with_retry_three_absences [OF assms, of self prompt vf ef fname]
  by (intro exI [of _ "[Speak prompt, Listen None,
              Speak (str ''I didn't catch that. Please say it again.''), Listen None,
              Speak (str ''I'm still having trouble hearing you. Let's try one more time.''), Listen None,
              Speak (str ''I'm sorry, I couldn't hear your '' @ fname @ str ''.'')]"]) simp

lemma collected_world:
  assumes "dialogue k w w1"
  obtains a where "w1 = run_from w a" "stores a = []"
  using assms unfolding dialogue_def by blast

lemma name_exhausted:
  assumes p: "pending w = None # None # None # rest"
  shows "fst (collect_name self (speak welcome_message w)) = None"
    and "\<exists>evs. run_kyc_session self w = (False, self, run_from w evs)
           \<and> listens evs = [None, None, None] \<and> stores evs = []"
proof -
  let ?w0 = "run_from w [Speak welcome_message]"
  have "pending ?w0 = None # None # None # rest"
    by (simp add: run_from_fields p)
  from three_absences_step [OF this, of self "str ''May I have your full name please?''"
      validate_name None "str ''name''"]
  obtain evs where evs: "collect_name self ?w0 = (None, run_from ?w0 evs)"
      "listens evs = [None, None, None]" "stores evs = []"
    unfolding collect_name_def by blast
  show "fst (collect_name self (speak welcome_message w)) = None"
    by (simp add: speak_run_from evs(1))
  let ?all = "Speak welcome_message # evs
              @ [Speak (str ''Unable to proceed without a valid name. Ending verification.'')]"
  have "run_kyc_session self w = (False, self, run_from w ?all)"
    using evs(1) by (simp add: run_kyc_session_def speak_run_from run_from_run_from)
  moreover have "listens ?all = [None, None, None]" "stores ?all = []"
    by (simp_all add: listens_append stores_append evs)
  ultimately show "\<exists>evs. run_kyc_session self w = (False, self, run_from w evs)
           \<and> listens evs = [None, None, None] \<and> stores evs = []"
    by blast
qed

lemma phone_exhausted:
  assumes p: "pending w = None # None # None # rest"
  shows "fst (collect_phone self w) = None"
    and "\<exists>evs. phone_step self w = (False, self, run_from w evs)
           \<and> listens evs = [None, None, None] \<and> stores evs = []"
proof -
  from three_absences_step [OF p, of self
      "str ''Thank you. Now, please provide your 10-digit mobile number.''"
      validate_phone "Some extract_phone" "str ''phone number''"]
  obtain evs where evs: "collect_phone self w = (None, run_from w evs)"
      "listens evs = [None, None, None]" "stores evs = []"
    unfolding collect_phone_def by blast
  show "fst (collect_phone self w) = None"
    by (simp add: evs(1))
  let ?all = "evs @ [Speak (str ''Unable to proceed without a valid phone number. Ending verification.'')]"
  have "phone_step self w = (False, self, run_from w ?all)"
    using evs(1) by (simp add: phone_step_def speak_run_from run_from_run_from)
  moreover have "listens ?all = [None, None, None]" "stores ?all = []"
    by (simp_all add: listens_append stores_append evs)
  ultimately show "\<exists>evs. phone_step self w = (False, self, run_from w evs)
           \<and> listens evs = [None, None, None] \<and> stores evs = []"
    by blast
qed

lemma pan_exhausted:
  assumes p: "pending w = None # None # None # rest"
  shows "fst (collect_pan self w) = None"
    and "\<exists>evs. pan_step self w = (False, self, run_from w evs)
           \<and> listens evs = [None, None, None] \<and> stores evs = []"
proof -
  from three_absences_step [OF p, of self
      "str ''Great. Now, please say your PAN number. That's 10 characters: 5 letters, 4 numbers, and 1 letter.''"
      validate_pan "Some extract_pan" "str ''PAN''"]
  obtain evs where evs: "collect_pan self w = (None, run_from w evs)"
      "listens evs = [None, None, None]" "stores evs = []"
    unfolding collect_pan_def by blast
  show "fst (collect_pan self w) = None"
    by (simp add: evs(1))
  let ?all = "evs @ [Speak (str ''Unable to proceed without a valid PAN. Ending verification.'')]"
  have "pan_step self w = (False, self, run_from w ?all)"
    using evs(1) by (simp add: pan_step_def speak_run_from run_from_run_from)
  moreover have "listens ?all = [None, None, None]" "stores ?all = []"
    by (simp_all add: listens_append stores_append evs)
  ultimately show "\<exists>evs. pan_step self w = (False, self, run_from w evs)
           \<and> listens evs = [None, None, None] \<and> stores evs = []"
    by blast
qed

lemma name_collected:
  assumes c: "collect_name self (speak welcome_message w) = (Some n, w1)"
  shows "n \<noteq> []"
    and "run_kyc_session self w =
           phone_step (self\<lparr>kyc_data := (kyc_data self)\<lparr>name := n\<rparr>\<rparr>) (stored Name (Text n) w1)"
    and "\<exists>a. stored Name (Text n) w1 = run_from w a \<and> stores a = [(Name, Text n)]"
proof -
  show n: "n \<noteq> []"
    using collect_name_result(2) [OF c] by simp
  show "run_kyc_session self w =
           phone_step (self\<lparr>kyc_data := (kyc_data self)\<lparr>name := n\<rparr>\<rparr>) (stored Name (Text n) w1)"
    using c n by (simp add: run_kyc_session_def)
  have "dialogue (3 + max_retries self) (speak welcome_message w) w1"
    using collect_name_result(1) [of self "speak welcome_message w"] by (simp add: c)
  then obtain a where a: "w1 = run_from (speak welcome_message w) a" "stores a = []"
    by (rule collected_world)
  have "stored Name (Text n) w1 = run_from w (Speak welcome_message # a @ [Store Name (Text n)])"
    by (simp add: a(1) stored_run_from speak_run_from run_from_run_from)
  moreover have "stores (Speak welcome_message # a @ [Store Name (Text n)]) = [(Name, Text n)]"
    by (simp add: stores_append a(2))
  ultimately show "\<exists>a. stored Name (Text n) w1 = run_from w a \<and> stores a = [(Name, Text n)]"
    by blast
qed

lemma phone_collected:
  assumes c: "collect_phone self w = (Some p, w1)"
  shows "p \<noteq> []"
    and "phone_step self w =
           pan_step (self\<lparr>kyc_data := (kyc_data self)\<lparr>phone := p\<rparr>\<rparr>) (stored Phone (Text p) w1)"
    and "\<exists>a. stored Phone (Text p) w1 = run_from w a \<and> stores a = [(Phone, Text p)]"
proof -
  show p: "p \<noteq> []"
    using collect_phone_result(2) [OF c] by simp
  show "phone_step self w =
           pan_step (self\<lparr>kyc_data := (kyc_data self)\<lparr>phone := p\<rparr>\<rparr>) (stored Phone (Text p) w1)"
    using c p by (simp add: phone_step_def)
  have "dialogue (3 + max_retries self) w w1"
    using collect_phone_result(1) [of self w] by (simp add: c)
  then obtain a where a: "w1 = run_from w a" "stores a = []"
    by (rule collected_world)
  have "stored Phone (Text p) w1 = run_from w (a @ [Store Phone (Text p)])"
    by (simp add: a(1) stored_run_from run_from_run_from)
  moreover have "stores (a @ [Store Phone (Text p)]) = [(Phone, Text p)]"
    by (simp add: stores_append a(2))
  ultimately show "\<exists>a. stored Phone (Text p) w1 = run_from w a \<and> stores a = [(Phone, Text p)]"
    by blast
qed

text \<open>
  Claim C2. With \<^verbatim>\<open>max_retries = 2\<close>, for each of the fields name, phone and identifier:
  when the three calls of \<^verbatim>\<open>listen\<close> that start its collection all return a capture
  absence, the collector returns \<^verbatim>\<open>None\<close> and the session fails at once: it calls
  \<^verbatim>\<open>listen\<close> no more, assigns nothing more to the record, leaves this field and
  the later ones empty, and every field collected before keeps its value.
\<close>

theorem retry_exhaustion_aborts:
  "(pending w = None # None # None # rest \<longrightarrow>
      fst (collect_name KYCVoiceBot_init (speak welcome_message w)) = None
      \<and> \<not> fst (run_kyc_session KYCVoiceBot_init w)
      \<and> kyc_data (fst (snd (run_kyc_session KYCVoiceBot_init w))) =
          \<lparr>name = [], phone = [], pan = [], consent = False, timestamp = []\<rparr>
      \<and> pending (snd (snd (run_kyc_session KYCVoiceBot_init w))) = rest
      \<and> listens (new_events w (snd (snd (run_kyc_session KYCVoiceBot_init w))))
          = [None, None, None]
      \<and> stores (new_events w (snd (snd (run_kyc_session KYCVoiceBot_init w)))) = [])
   \<and> (collect_name KYCVoiceBot_init (speak welcome_message w) = (Some n, w1)
      \<and> pending w1 = None # None # None # rest \<longrightarrow>
      fst (collect_phone (KYCVoiceBot_init\<lparr>kyc_data := (kyc_data KYCVoiceBot_init)\<lparr>name := n\<rparr>\<rparr>)
             (stored Name (Text n) w1)) = None
      \<and> \<not> fst (run_kyc_session KYCVoiceBot_init w)
      \<and> kyc_data (fst (snd (run_kyc_session KYCVoiceBot_init w))) =
          \<lparr>name = n, phone = [], pan = [], consent = False, timestamp = []\<rparr>
      \<and> n \<noteq> []
      \<and> pending (snd (snd (run_kyc_session KYCVoiceBot_init w))) = rest
      \<and> listens (new_events w1 (snd (snd (run_kyc_session KYCVoiceBot_init w))))
          = [None, None, None]
      \<and> stores (new_events w (snd (snd (run_kyc_session KYCVoiceBot_init w))))
          = [(Name, Text n)])
   \<and> (collect_name KYCVoiceBot_init (speak welcome_message w) = (Some n, w1)
      \<and> collect_phone (KYCVoiceBot_init\<lparr>kyc_data := (kyc_data KYCVoiceBot_init)\<lparr>name := n\<rparr>\<rparr>)
            (stored Name (Text n) w1) = (Some p, w2)
      \<and> pending w2 = None # None # None # rest \<longrightarrow>
      fst (collect_pan
             (KYCVoiceBot_init\<lparr>kyc_data := (kyc_data KYCVoiceBot_init)\<lparr>name := n, phone := p\<rparr>\<rparr>)
             (stored Phone (Text p) w2)) = None
      \<and> \<not> fst (run_kyc_session KYCVoiceBot_init w)
      \<and> kyc_data (fst (snd (run_kyc_session KYCVoiceBot_init w))) =
          \<lparr>name = n, phone = p, pan = [], consent = False, timestamp = []\<rparr>
      \<and> n \<noteq> [] \<and> p \<noteq> []
      \<and> pending (snd (snd (run_kyc_session KYCVoiceBot_init w))) = rest
      \<and> listens (new_events w2 (snd (snd (run_kyc_session KYCVoiceBot_init w))))
          = [None, None, None]
      \<and> stores (new_events w (snd (snd (run_kyc_session KYCVoiceBot_init w))))
          = [(Name, Text n), (Phone, Text p)])"
proof -
  let ?run = "run_kyc_session KYCVoiceBot_init w"
  let ?self1 = "KYCVoiceBot_init\<lparr>kyc_data := (kyc_data KYCVoiceBot_init)\<lparr>name := n\<rparr>\<rparr>"
  let ?self2 = "KYCVoiceBot_init\<lparr>kyc_data := (kyc_data KYCVoiceBot_init)\<lparr>name := n, phone := p\<rparr>\<rparr>"
  have A: "fst (collect_name KYCVoiceBot_init (speak welcome_message w)) = None
      \<and> \<not> fst ?run
      \<and> kyc_data (fst (snd ?run)) = \<lparr>name = [], phone = [], pan = [], consent = False, timestamp = []\<rparr>
      \<and> pending (snd (snd ?run)) = rest
      \<and> listens (new_events w (snd (snd ?run))) = [None, None, None]
      \<and> stores (new_events w (snd (snd ?run))) = []"
    if p: "pending w = None # None # None # rest"
  proof -
    from name_exhausted(2) [OF p, of KYCVoiceBot_init]
    obtain evs where evs: "?run = (False, KYCVoiceBot_init, run_from w evs)"
        "listens evs = [None, None, None]" "stores evs = []"
      by blast
    have "kyc_data (fst (snd ?run)) =
        \<lparr>name = [], phone = [], pan = [], consent = False, timestamp = []\<rparr>"
      by (simp only: evs(1) fst_conv snd_conv) (simp add: KYCVoiceBot_init_def)
    moreover have "pending (snd (snd ?run)) = rest"
      by (simp add: evs(1) evs(2) run_from_fields p)
    moreover have "listens (new_events w (snd (snd ?run))) = [None, None, None]"
      "stores (new_events w (snd (snd ?run))) = []"
      by (simp_all add: evs new_events_run_from)
    ultimately show ?thesis
      using name_exhausted(1) [OF p, of KYCVoiceBot_init] by (simp add: evs(1))
  qed
  have B: "fst (collect_phone ?self1 (stored Name (Text n) w1)) = None
      \<and> \<not> fst ?run
      \<and> kyc_data (fst (snd ?run)) = \<lparr>name = n, phone = [], pan = [], consent = False, timestamp = []\<rparr>
      \<and> n \<noteq> []
      \<and> pending (snd (snd ?run)) = rest
      \<and> listens (new_events w1 (snd (snd ?run))) = [None, None, None]
      \<and> stores (new_events w (snd (snd ?run))) = [(Name, Text n)]"
    if c: "collect_name KYCVoiceBot_init (speak welcome_message w) = (Some n, w1)"
      and p: "pending w1 = None # None # None # rest"
  proof -
    let ?w1 = "stored Name (Text n) w1"
    note nc = name_collected [OF c]
    from nc(3) obtain a where a: "?w1 = run_from w a" "stores a = [(Name, Text n)]"
      by blast
    have p1: "pending ?w1 = None # None # None # rest"
      by (simp add: stored_run_from run_from_fields p)
    from phone_exhausted(2) [OF p1, of ?self1]
    obtain evs where evs: "phone_step ?self1 ?w1 = (False, ?self1, run_from ?w1 evs)"
        "listens evs = [None, None, None]" "stores evs = []"
      by blast
    have r: "?run = (False, ?self1, run_from ?w1 evs)"
      by (simp only: nc(2) evs(1))
    have e1: "run_from ?w1 evs = run_from w1 (Store Name (Text n) # evs)"
      by (simp add: stored_run_from run_from_run_from)
    have e2: "run_from ?w1 evs = run_from w (a @ evs)"
      by (simp only: a(1) run_from_run_from)
    have "listens (new_events w1 (snd (snd ?run))) = [None, None, None]"
      by (simp add: r e1 new_events_run_from evs(2))
    moreover have "stores (new_events w (snd (snd ?run))) = [(Name, Text n)]"
      by (simp add: r e2 new_events_run_from stores_append a(2) evs(3))
    moreover have "pending (snd (snd ?run)) = rest"
      by (simp add: r e1 run_from_fields evs(2) p)
    moreover have "kyc_data (fst (snd ?run)) =
        \<lparr>name = n, phone = [], pan = [], consent = False, timestamp = []\<rparr>"
      by (simp only: r fst_conv snd_conv) (simp add: KYCVoiceBot_init_def)
    ultimately show ?thesis
      using phone_exhausted(1) [OF p1, of ?self1] nc(1) by (simp add: r)
  qed
  have C: "fst (collect_pan ?self2 (stored Phone (Text p) w2)) = None
      \<and> \<not> fst ?run
      \<and> kyc_data (fst (snd ?run)) = \<lparr>name = n, phone = p, pan = [], consent = False, timestamp = []\<rparr>
      \<and> n \<noteq> [] \<and> p \<noteq> []
      \<and> pending (snd (snd ?run)) = rest
      \<and> listens (new_events w2 (snd (snd ?run))) = [None, None, None]
      \<and> stores (new_events w (snd (snd ?run))) = [(Name, Text n), (Phone, Text p)]"
    if c: "collect_name KYCVoiceBot_init (speak welcome_message w) = (Some n, w1)"
      and c2: "collect_phone ?self1 (stored Name (Text n) w1) = (Some p, w2)"
      and p: "pending w2 = None # None # None # rest"
  proof -
    let ?w1 = "stored Name (Text n) w1"
    let ?w2 = "stored Phone (Text p) w2"
    note nc = name_collected [OF c]
    note pc = phone_collected [OF c2]
    have s2: "?self1\<lparr>kyc_data := (kyc_data ?self1)\<lparr>phone := p\<rparr>\<rparr> = ?self2"
      by simp
    from nc(3) obtain a where a: "?w1 = run_from w a" "stores a = [(Name, Text n)]"
      by blast
    from pc(3) obtain b where b: "?w2 = run_from ?w1 b" "stores b = [(Phone, Text p)]"
      by blast
    have p2: "pending ?w2 = None # None # None # rest"
      by (simp add: stored_run_from run_from_fields p)
    from pan_exhausted(2) [OF p2, of ?self2]
    obtain evs where evs: "pan_step ?self2 ?w2 = (False, ?self2, run_from ?w2 evs)"
        "listens evs = [None, None, None]" "stores evs = []"
      by blast
    have r: "?run = (False, ?self2, run_from ?w2 evs)"
      using evs(1) by (simp only: nc(2) pc(2) s2)
    have e1: "run_from ?w2 evs = run_from w2 (Store Phone (Text p) # evs)"
      by (simp add: stored_run_from run_from_run_from)
    have e2: "run_from ?w2 evs = run_from w (a @ b @ evs)"
      by (simp only: b(1) a(1) run_from_run_from append_assoc)
    have "listens (new_events w2 (snd (snd ?run))) = [None, None, None]"
      by (simp add: r e1 new_events_run_from evs(2))
    moreover have "stores (new_events w (snd (snd ?run))) = [(Name, Text n), (Phone, Text p)]"
      by (simp add: r e2 new_events_run_from stores_append a(2) b(2) evs(3))
    moreover have "pending (snd (snd ?run)) = rest"
      by (simp add: r e1 run_from_fields evs(2) p)
    moreover have "kyc_data (fst (snd ?run)) =
        \<lparr>name = n, phone = p, pan = [], consent = False, timestamp = []\<rparr>"
      by (simp only: r fst_conv snd_conv) (simp add: KYCVoiceBot_init_def)
    ultimately show ?thesis
      using pan_exhausted(1) [OF p2, of ?self2] nc(1) pc(1) by (simp add: r)
  qed
  from A B C show ?thesis by blast
qed

theorem retry_exhaustion_aborts_witness:
  "pending \<lparr>pending = [None, None, None, Some (str ''Asha Rao'')], clock = [], writable = True,
             files = Map.empty, trace = []\<rparr> = None # None # None # [Some (str ''Asha Rao'')]
   \<and> \<not> fst (run_kyc_session KYCVoiceBot_init
         \<lparr>pending = [None, None, None, Some (str ''Asha Rao'')], clock = [], writable = True,
            files = Map.empty, trace = []\<rparr>)
   \<and> pending (snd (snd (run_kyc_session KYCVoiceBot_init
         \<lparr>pending = [None, None, None, Some (str ''Asha Rao'')], clock = [], writable = True,
            files = Map.empty, trace = []\<rparr>))) = [Some (str ''Asha Rao'')]
   \<and> fst (collect_name KYCVoiceBot_init (speak welcome_message
         \<lparr>pending = [Some (str ''Asha Rao''), None, None, None], clock = [], writable = True,
            files = Map.empty, trace = []\<rparr>)) = Some (str ''Asha Rao'')
   \<and> pending (snd (collect_name KYCVoiceBot_init (speak welcome_message
         \<lparr>pending = [Some (str ''Asha Rao''), None, None, None], clock = [], writable = True,
            files = Map.empty, trace = []\<rparr>))) = None # None # None # []
   \<and> kyc_data (fst (snd (run_kyc_session KYCVoiceBot_init
         \<lparr>pending = [Some (str ''Asha Rao''), None, None, None], clock = [], writable = True,
            files = Map.empty, trace = []\<rparr>)))
       = \<lparr>name = str ''Asha Rao'', phone = [], pan = [], consent = False, timestamp = []\<rparr>
   \<and> fst (collect_name KYCVoiceBot_init (speak welcome_message
         \<lparr>pending = [Some (str ''Asha Rao''), Some (str ''98765 43210''), None, None, None], clock = [],
            writable = True, files = Map.empty, trace = []\<rparr>)) = Some (str ''Asha Rao'')
   \<and> fst (collect_phone
         (KYCVoiceBot_init\<lparr>kyc_data := (kyc_data KYCVoiceBot_init)\<lparr>name := str ''Asha Rao''\<rparr>\<rparr>)
         (stored Name (Text (str ''Asha Rao''))
            (snd (collect_name KYCVoiceBot_init (speak welcome_message
               \<lparr>pending = [Some (str ''Asha Rao''), Some (str ''98765 43210''), None, None, None], clock = [],
                  writable = True, files = Map.empty, trace = []\<rparr>))))) = Some (str ''9876543210'')
   \<and> pending (snd (collect_phone
         (KYCVoiceBot_init\<lparr>kyc_data := (kyc_data KYCVoiceBot_init)\<lparr>name := str ''Asha Rao''\<rparr>\<rparr>)
         (stored Name (Text (str ''Asha Rao''))
            (snd (collect_name KYCVoiceBot_init (speak welcome_message
               \<lparr>pending = [Some (str ''Asha Rao''), Some (str ''98765 43210''), None, None, None], clock = [],
                  writable = True, files = Map.empty, trace = []\<rparr>))))))
       = None # None # None # []
   \<and> kyc_data (fst (snd (run_kyc_session KYCVoiceBot_init
         \<lparr>pending = [Some (str ''Asha Rao''), Some (str ''98765 43210''), None, None, None], clock = [],
            writable = True, files = Map.empty, trace = []\<rparr>)))
       = \<lparr>name = str ''Asha Rao'', phone = str ''9876543210'', pan = [], consent = False,
            timestamp = []\<rparr>"
proof -
  let ?wa = "\<lparr>pending = [None, None, None, Some (str ''Asha Rao'')], clock = [], writable = True,
            files = Map.empty, trace = []\<rparr>"
  let ?wb = "\<lparr>pending = [Some (str ''Asha Rao''), None, None, None], clock = [], writable = True,
            files = Map.empty, trace = []\<rparr>"
  let ?wc = "\<lparr>pending = [Some (str ''Asha Rao''), Some (str ''98765 43210''), None, None, None], clock = [],
            writable = True, files = Map.empty, trace = []\<rparr>"
  let ?self1 = "KYCVoiceBot_init\<lparr>kyc_data := (kyc_data KYCVoiceBot_init)\<lparr>name := str ''Asha Rao''\<rparr>\<rparr>"
  let ?cb = "collect_name KYCVoiceBot_init (speak welcome_message ?wb)"
  let ?cc = "collect_name KYCVoiceBot_init (speak welcome_message ?wc)"
  let ?cp = "collect_phone ?self1 (stored Name (Text (str ''Asha Rao'')) (snd ?cc))"
  have pa: "pending ?wa = None # None # None # [Some (str ''Asha Rao'')]" by simp
  note A = retry_exhaustion_aborts [of ?wa "[Some (str ''Asha Rao'')]", THEN conjunct1]
  from A pa have a1: "\<not> fst (run_kyc_session KYCVoiceBot_init ?wa)" by blast
  from A pa have a2: "pending (snd (snd (run_kyc_session KYCVoiceBot_init ?wa))) = [Some (str ''Asha Rao'')]"
    by blast
  have fb: "fst ?cb = Some (str ''Asha Rao'')" by code_simp
  have pb: "pending (snd ?cb) = None # None # None # []" by code_simp
  from fb have hb: "?cb = (Some (str ''Asha Rao''), snd ?cb)"
    by (metis prod.collapse)
  note B = retry_exhaustion_aborts [of ?wb "[]" "str ''Asha Rao''" "snd ?cb",
      THEN conjunct2, THEN conjunct1]
  from B hb pb have b1: "kyc_data (fst (snd (run_kyc_session KYCVoiceBot_init ?wb)))
       = \<lparr>name = str ''Asha Rao'', phone = [], pan = [], consent = False, timestamp = []\<rparr>"
    by blast
  have fc: "fst ?cc = Some (str ''Asha Rao'')" by code_simp
  from fc have hc: "?cc = (Some (str ''Asha Rao''), snd ?cc)"
    by (metis prod.collapse)
  have fp: "fst ?cp = Some (str ''9876543210'')" by code_simp
  from fp have hp: "?cp = (Some (str ''9876543210''), snd ?cp)"
    by (metis prod.collapse)
  have pc: "pending (snd ?cp) = None # None # None # []" by code_simp
  note C = retry_exhaustion_aborts [of ?wc "[]" "str ''Asha Rao''" "snd ?cc" "str ''9876543210''" "snd ?cp",
      THEN conjunct2, THEN conjunct2]
  from C hc hp pc have c1: "kyc_data (fst (snd (run_kyc_session KYCVoiceBot_init ?wc)))
       = \<lparr>name = str ''Asha Rao'', phone = str ''9876543210'', pan = [], consent = False,
            timestamp = []\<rparr>"
    by blast
  from pa a1 a2 fb pb b1 fc fp pc c1 show ?thesis by (intro conjI)
qed

end
